theory Spec2Isabelle
  imports Main
begin

section \<open>Strings\<close>

text \<open>
  Script strings are modelled as \<^typ>\<open>string\<close>, one \<^typ>\<open>char\<close> per code unit in the
  range 0..255. The functions below are the \<^verbatim>\<open>String.prototype\<close> methods the script
  calls, with the argument order of the call \<^verbatim>\<open>s.method(args)\<close>.
\<close>

definition startsWith :: "string \<Rightarrow> string \<Rightarrow> bool" where
  "startsWith s pat = (take (length pat) s = pat)"

text \<open>\<^verbatim>\<open>s.includes(pat)\<close>: \<open>pat\<close> occurs in \<open>s\<close> at some position.\<close>

fun str_includes :: "string \<Rightarrow> string \<Rightarrow> bool" where
  "str_includes [] pat = (pat = [])"
| "str_includes (c # cs) pat = (startsWith (c # cs) pat \<or> str_includes cs pat)"

text \<open>
  \<^verbatim>\<open>s.replace(pat, rep)\<close> with a string pattern: only the first (leftmost) occurrence
  of \<open>pat\<close> is replaced.
\<close>

fun str_replace :: "string \<Rightarrow> string \<Rightarrow> string \<Rightarrow> string" where
  "str_replace [] pat rep = (if pat = [] then rep else [])"
| "str_replace (c # cs) pat rep =
     (if startsWith (c # cs) pat then rep @ drop (length pat) (c # cs)
      else c # str_replace cs pat rep)"

text \<open>White space as \<^verbatim>\<open>trim\<close> sees it: TAB, LF, VT, FF, CR, SPACE and NBSP.\<close>

definition isWhiteSpace :: "char \<Rightarrow> bool" where
  "isWhiteSpace c =
     (c = CHR 0x09 \<or> c = CHR 0x0A \<or> c = CHR 0x0B \<or> c = CHR 0x0C \<or> c = CHR 0x0D
      \<or> c = CHR 0x20 \<or> c = CHR 0xA0)"

definition str_trim :: "string \<Rightarrow> string" where
  "str_trim s = rev (dropWhile isWhiteSpace (rev (dropWhile isWhiteSpace s)))"

definition char_toLowerCase :: "char \<Rightarrow> char" where
  "char_toLowerCase c =
     (let n = (of_char c :: nat)
      in if (65 \<le> n \<and> n \<le> 90) \<or> (192 \<le> n \<and> n \<le> 222 \<and> n \<noteq> 215)
         then char_of (n + 32) else c)"

definition str_toLowerCase :: "string \<Rightarrow> string" where
  "str_toLowerCase s = map char_toLowerCase s"

text \<open>\<^verbatim>\<open>xs.join(sep)\<close> on an array of strings.\<close>

fun str_join :: "string list \<Rightarrow> string \<Rightarrow> string" where
  "str_join [] sep = []"
| "str_join [x] sep = x"
| "str_join (x # y # ys) sep = x @ sep @ str_join (y # ys) sep"

section \<open>Objects used as dictionaries\<close>

text \<open>
  The script keeps its catalog, its section table and the per-provider answers in
  plain objects. An object is modelled by its own properties as an association list in
  insertion order; where a key occurs twice the first binding is the property.
  \<^verbatim>\<open>obj[k] = v\<close> overwrites an existing property in place and appends a new one.
  The key \<^verbatim>\<open>__proto__\<close> is stored like any other key; no tab with an underscore in its
  name becomes a provider.

  \<^verbatim>\<open>Object.keys(obj)\<close> lists the keys that are array indices (canonical decimal
  numerals below \<open>2^32 - 1\<close>) in ascending numeric order, then all other keys in
  insertion order.
\<close>

type_synonym 'v object = "(string \<times> 'v) list"

fun object_set :: "'v object \<Rightarrow> string \<Rightarrow> 'v \<Rightarrow> 'v object" where
  "object_set [] k v = [(k, v)]"
| "object_set ((k', v') # ps) k v =
     (if k' = k then (k, v) # ps else (k', v') # object_set ps k v)"

definition object_get :: "'v object \<Rightarrow> string \<Rightarrow> 'v option" where
  "object_get obj k = map_of obj k"

text \<open>
  A read \<^verbatim>\<open>obj[k]\<close> of a plain object \<^verbatim>\<open>{}\<close> finds the own property \<open>k\<close> if there is
  one and otherwise goes through \<^verbatim>\<open>Object.prototype\<close>: for the names of its members the
  read yields the inherited member (a function, or the prototype itself for
  \<^verbatim>\<open>__proto__\<close>), for every other name \<^verbatim>\<open>undefined\<close>. \<open>object_get\<close> is the read of a key
  that is known to be an own key.
\<close>

definition objectPrototypeNames :: "string list" where
  "objectPrototypeNames =
     [''constructor'', ''__defineGetter__'', ''__defineSetter__'', ''hasOwnProperty'',
      ''__lookupGetter__'', ''__lookupSetter__'', ''isPrototypeOf'', ''propertyIsEnumerable'',
      ''toString'', ''valueOf'', ''__proto__'', ''toLocaleString'']"

datatype 'v property = Own 'v | Inherited | Undefined

definition object_read :: "'v object \<Rightarrow> string \<Rightarrow> 'v property" where
  "object_read obj k =
     (case map_of obj k of
        Some v \<Rightarrow> Own v
      | None \<Rightarrow> if k \<in> set objectPrototypeNames then Inherited else Undefined)"

definition isDigit :: "char \<Rightarrow> bool" where
  "isDigit c = (48 \<le> (of_char c :: nat) \<and> (of_char c :: nat) \<le> 57)"

definition decimal_value :: "string \<Rightarrow> nat" where
  "decimal_value s = foldl (\<lambda>n c. 10 * n + ((of_char c :: nat) - 48)) 0 s"

definition isArrayIndex :: "string \<Rightarrow> bool" where
  "isArrayIndex s =
     (s \<noteq> [] \<and> list_all isDigit s \<and> (length s = 1 \<or> hd s \<noteq> CHR ''0'')
      \<and> decimal_value s < 4294967295)"

text \<open>
  Insertion of a value into an array or a \<^verbatim>\<open>Set\<close> that keeps the first occurrence only;
  \<open>first_occurrences xs\<close> is \<^verbatim>\<open>[...new Set(xs)]\<close>.
\<close>

fun set_add :: "'a list \<Rightarrow> 'a \<Rightarrow> 'a list" where
  "set_add acc x = (if x \<in> set acc then acc else acc @ [x])"

definition first_occurrences :: "'a list \<Rightarrow> 'a list" where
  "first_occurrences xs = foldl set_add [] xs"

definition key_order :: "string list \<Rightarrow> string list" where
  "key_order ks =
     sort_key decimal_value (filter isArrayIndex ks) @ filter (\<lambda>k. \<not> isArrayIndex k) ks"

definition object_keys :: "'v object \<Rightarrow> string list" where
  "object_keys obj = key_order (first_occurrences (map fst obj))"

text \<open>
  The entries that a loop \<^verbatim>\<open>Object.keys(obj).forEach(k => ... obj[k] ...)\<close> visits: each
  own key, in \<^verbatim>\<open>Object.keys\<close> order, with the value read under it.
\<close>

definition object_entries :: "'v object \<Rightarrow> (string \<times> 'v) list" where
  "object_entries obj =
     List.map_filter (\<lambda>k. map_option (Pair k) (object_get obj k)) (object_keys obj)"

definition object_values :: "'v object \<Rightarrow> 'v list" where
  "object_values obj = map snd (object_entries obj)"

section \<open>Submission processing\<close>

subsection \<open>Responses\<close>

text \<open>
  \<^verbatim>\<open>itemResponse.getResponse()\<close> is a string (text and multiple-choice items), an array
  of strings (checkbox items) or absent.
\<close>

datatype answer = AStr string | AArr "string list" | ANull

fun truthy :: "answer \<Rightarrow> bool" where
  "truthy (AStr s) = (s \<noteq> [])"
| "truthy (AArr xs) = True"
| "truthy ANull = False"

text \<open>\<^verbatim>\<open>String(answer)\<close>.\<close>

fun String :: "answer \<Rightarrow> string" where
  "String (AStr s) = s"
| "String (AArr xs) = str_join xs '',''"
| "String ANull = ''null''"

text \<open>\<^verbatim>\<open>answer || ''\<close>.\<close>

definition or_empty :: "answer \<Rightarrow> answer" where
  "or_empty a = (if truthy a then a else AStr [])"

record response =
  respondentEmail :: "string option"
  itemResponses :: "(string \<times> answer) list"

subsection \<open>onFormSubmitV5\<close>

record submissionData =
  timestamp :: nat
  name :: answer
  projectName :: answer
  selectedCloudProvider :: "string list"
  technologies :: "string list object"
  comments :: answer
  email :: string
  technologiesCount :: "nat option"
  technologiesSummary :: "string option"

text \<open>
  What the handler and \<open>saveSubmissionV5\<close> write to the console; the last entry is the
  \<^verbatim>\<open>console.error\<close> of the handler that catches an exception in \<open>saveSubmissionV5\<close>.
\<close>

datatype save_error = TypeError

datatype log_entry =
    LogProcessing
  | LogSubmissionProcessed answer answer "string list"
  | LogSubmissionSaved
  | LogErrorSaving save_error

record handler_state =
  submission :: submissionData
  console :: "log_entry list"

text \<open>
  The initial \<open>submissionData\<close>; \<open>now\<close> is the reading of the clock that
  \<^verbatim>\<open>new Date()\<close> takes when the handler runs.
\<close>

definition initialSubmission :: "nat \<Rightarrow> response \<Rightarrow> submissionData" where
  "initialSubmission now r =
     \<lparr> timestamp = now, name = AStr [], projectName = AStr [],
       selectedCloudProvider = [], technologies = [], comments = AStr [],
       email = (case respondentEmail r of None \<Rightarrow> [] | Some e \<Rightarrow> e),
       technologiesCount = None, technologiesSummary = None \<rparr>"

text \<open>The title-decoding rule of the \<^verbatim>\<open>Technology Experience\<close> branch.\<close>

definition decodeCloud :: "string \<Rightarrow> string" where
  "decodeCloud questionTitle =
     str_trim (str_replace questionTitle '' Technology Experience'' [])"

text \<open>The body of \<^verbatim>\<open>itemResponses.forEach\<close>: an if-else chain on the question title.\<close>

definition processItem :: "handler_state \<Rightarrow> string \<times> answer \<Rightarrow> handler_state" where
  "processItem st qa =
     (let questionTitle = fst qa; answer = snd qa; d = submission st in
      if questionTitle = ''Full Name of a Padawan'' then
        st\<lparr>submission := d\<lparr>name := or_empty answer\<rparr>\<rparr>
      else if questionTitle = ''Project Name'' then
        st\<lparr>submission := d\<lparr>projectName := or_empty answer\<rparr>\<rparr>
      else if questionTitle = ''Choose Your Cloud Provider'' then
        (if truthy answer
         then st\<lparr>submission :=
                   d\<lparr>selectedCloudProvider := selectedCloudProvider d @ [String answer]\<rparr>\<rparr>
         else st)
      else if questionTitle = ''Next step'' then
        (if truthy answer \<and> answer \<noteq> AStr ''Go to Submit''
         then st\<lparr>submission :=
                   d\<lparr>selectedCloudProvider := selectedCloudProvider d @ [String answer]\<rparr>\<rparr>
         else st)
      else if str_includes questionTitle ''Technology Experience'' then
        st\<lparr>submission :=
             d\<lparr>technologies :=
                  object_set (technologies d) (decodeCloud questionTitle)
                    (case answer of AArr xs \<Rightarrow> xs | _ \<Rightarrow> [])\<rparr>\<rparr>
      else if str_includes questionTitle ''Additional Comments'' then
        st\<lparr>submission := d\<lparr>comments := or_empty answer\<rparr>\<rparr>
      else st)"

text \<open>The summary loop over \<^verbatim>\<open>Object.keys(submissionData.technologies)\<close>.\<close>

fun summaryLoop :: "(string \<times> string list) list \<Rightarrow> string list \<times> nat \<Rightarrow> string list \<times> nat" where
  "summaryLoop [] acc = acc"
| "summaryLoop ((cloud, list) # rest) (techParts, techCount) =
     summaryLoop rest
       (if list \<noteq> [] then techParts @ [cloud @ '': '' @ str_join list '', ''] else techParts,
        techCount + length list)"

text \<open>
  The handler up to the call of \<open>saveSubmissionV5\<close>: scan the item responses, log,
  deduplicate the visited providers, compute the summary fields.
\<close>

definition scanned :: "nat \<Rightarrow> response \<Rightarrow> handler_state" where
  "scanned now r =
     foldl processItem
       \<lparr> submission = initialSubmission now r, console = [LogProcessing] \<rparr>
       (itemResponses r)"

definition prepared :: "nat \<Rightarrow> response \<Rightarrow> handler_state" where
  "prepared now r =
     (let st = scanned now r; d = submission st;
          logged = console st @
            [LogSubmissionProcessed (name d) (projectName d) (selectedCloudProvider d)];
          d1 = d\<lparr>selectedCloudProvider := first_occurrences (selectedCloudProvider d)\<rparr>;
          (techParts, techCount) = summaryLoop (object_entries (technologies d1)) ([], 0);
          d2 = d1\<lparr>technologiesCount := Some techCount,
                  technologiesSummary := Some (str_join techParts '' | '')\<rparr>
      in \<lparr> submission = d2, console = logged \<rparr>)"

subsection \<open>saveSubmissionV5\<close>

text \<open>One appended row of the sheet \<^verbatim>\<open>V5_Responses\<close>, column by column.\<close>

record outputRecord =
  colTimestamp :: nat
  colName :: answer
  colProjectName :: answer
  colClouds :: string
  colTechnologiesCount :: nat
  colTechnologies :: string
  colComments :: answer
  colTechLeadEmail :: string

datatype sheet_row = HeaderRow "string list" | DataRow outputRecord

definition headers :: "string list" where
  "headers = [''Timestamp'', ''Name'', ''Project Name'', ''Clouds'', ''Technologies Count'',
              ''Technologies'', ''Comments'', ''TechLeadEmail'']"

text \<open>
  The row written for one visited cloud (the body of \<^verbatim>\<open>clouds.forEach\<close>).
  \<^verbatim>\<open>techList\<close> is \<^verbatim>\<open>techByCloud[cloud] || []\<close>: the recorded list, the empty list where
  the read is \<^verbatim>\<open>undefined\<close>, and an inherited member of \<^verbatim>\<open>Object.prototype\<close> where the
  cloud has no recorded list and bears the name of one. An inherited member is truthy
  and has no \<^verbatim>\<open>join\<close>, so building the row throws a \<^verbatim>\<open>TypeError\<close> before anything is
  appended.
\<close>

definition rowFor :: "submissionData \<Rightarrow> string \<Rightarrow> string list \<Rightarrow> outputRecord" where
  "rowFor d cloud techList =
     \<lparr> colTimestamp = timestamp d, colName = name d, colProjectName = projectName d,
       colClouds = cloud, colTechnologiesCount = length techList,
       colTechnologies = str_join techList '', '', colComments = comments d,
       colTechLeadEmail = email d \<rparr>"

definition cloudRow :: "submissionData \<Rightarrow> string \<Rightarrow> save_error + outputRecord" where
  "cloudRow d cloud =
     (case object_read (technologies d) cloud of
        Own techList \<Rightarrow> Inr (rowFor d cloud techList)
      | Undefined \<Rightarrow> Inr (rowFor d cloud [])
      | Inherited \<Rightarrow> Inl TypeError)"

text \<open>
  \<^verbatim>\<open>clouds.forEach\<close>: the rows appended, in order, and the exception that ended the loop,
  if any. The rows appended before an exception stay in the sheet.
\<close>

fun cloudsLoop :: "submissionData \<Rightarrow> string list \<Rightarrow> outputRecord list \<times> save_error option" where
  "cloudsLoop d [] = ([], None)"
| "cloudsLoop d (cloud # rest) =
     (case cloudRow d cloud of
        Inl e \<Rightarrow> ([], Some e)
      | Inr row \<Rightarrow> (row # fst (cloudsLoop d rest), snd (cloudsLoop d rest)))"

text \<open>The fallback row, written when no cloud was captured.\<close>

definition fallbackRow :: "submissionData \<Rightarrow> outputRecord" where
  "fallbackRow d =
     \<lparr> colTimestamp = timestamp d, colName = name d, colProjectName = projectName d,
       colClouds = [], colTechnologiesCount = 0, colTechnologies = [],
       colComments = comments d, colTechLeadEmail = email d \<rparr>"

text \<open>The rows \<open>saveSubmissionV5\<close> appends for a submission, in order.\<close>

definition rowsToAppend :: "submissionData \<Rightarrow> outputRecord list" where
  "rowsToAppend d =
     (let clouds = selectedCloudProvider d
      in if length clouds = 0 then [fallbackRow d] else fst (cloudsLoop d clouds))"

text \<open>
  The sink is the content of the tab \<^verbatim>\<open>V5_Responses\<close>, \<open>None\<close> while the tab does not
  exist. \<open>saveSubmissionV5\<close> creates the tab with its header row when it is absent and
  appends the rows. It logs the saving after the loop, nothing when it returned through
  the fallback branch, and the error when the loop threw.
\<close>

definition saveSubmissionV5 ::
  "sheet_row list option \<Rightarrow> submissionData \<Rightarrow> sheet_row list option \<times> log_entry list" where
  "saveSubmissionV5 sink d =
     (let responsesSheet = (case sink of None \<Rightarrow> [HeaderRow headers] | Some rows \<Rightarrow> rows)
      in (Some (responsesSheet @ map DataRow (rowsToAppend d)),
          if length (selectedCloudProvider d) = 0 then []
          else case snd (cloudsLoop d (selectedCloudProvider d)) of
                 None \<Rightarrow> [LogSubmissionSaved]
               | Some e \<Rightarrow> [LogErrorSaving e]))"

record handler_result =
  resultData :: submissionData
  resultSink :: "sheet_row list option"
  resultConsole :: "log_entry list"

definition onFormSubmitV5 :: "nat \<Rightarrow> response \<Rightarrow> sheet_row list option \<Rightarrow> handler_result" where
  "onFormSubmitV5 now r sink =
     (let st = prepared now r;
          (sink', logged) = saveSubmissionV5 sink (submission st)
      in \<lparr> resultData = submission st, resultSink = sink',
           resultConsole = console st @ logged \<rparr>)"

text \<open>
  The specification's \<open>process\<close>: the output records that the handler emits for one
  response when it runs at clock reading \<open>now\<close>.
\<close>

definition process :: "nat \<Rightarrow> response \<Rightarrow> outputRecord list" where
  "process now r = rowsToAppend (submission (prepared now r))"

text \<open>
  The values pushed onto \<open>selectedCloudProvider\<close> by the answers of a response, in
  scan order: what the provider-select and next-step questions record.
\<close>

fun recordedProviders :: "(string \<times> answer) list \<Rightarrow> string list" where
  "recordedProviders [] = []"
| "recordedProviders ((questionTitle, answer) # rest) =
     (if questionTitle = ''Choose Your Cloud Provider'' \<and> truthy answer
        then String answer # recordedProviders rest
      else if questionTitle = ''Next step'' \<and> truthy answer \<and> answer \<noteq> AStr ''Go to Submit''
        then String answer # recordedProviders rest
      else recordedProviders rest)"

text \<open>The titles that some branch of the if-else chain accepts.\<close>

definition recognisedTitle :: "string \<Rightarrow> bool" where
  "recognisedTitle questionTitle =
     (questionTitle = ''Full Name of a Padawan'' \<or> questionTitle = ''Project Name''
      \<or> questionTitle = ''Choose Your Cloud Provider'' \<or> questionTitle = ''Next step''
      \<or> str_includes questionTitle ''Technology Experience''
      \<or> str_includes questionTitle ''Additional Comments'')"

text \<open>
  First-seen order, stated without reference to the script: \<open>first_seen xs\<close> keeps the
  first occurrence of every element, and \<open>firstIndex xs a\<close> is the position at which
  \<open>a\<close> first occurs in \<open>xs\<close>.
\<close>

fun first_seen :: "'a list \<Rightarrow> 'a list" where
  "first_seen [] = []"
| "first_seen (x # xs) = x # filter (\<lambda>y. y \<noteq> x) (first_seen xs)"

definition firstIndex :: "'a list \<Rightarrow> 'a \<Rightarrow> nat" where
  "firstIndex xs a = length (takeWhile (\<lambda>x. x \<noteq> a) xs)"

section \<open>The spreadsheet\<close>

text \<open>
  A cell value as \<^verbatim>\<open>getValues()\<close> returns it: a string, or a value of another type
  (number, boolean, date), of which the script uses the truthiness and the rendering by
  \<^verbatim>\<open>String(value)\<close> only.
\<close>

datatype cell = Text string | NonText bool string

fun cellTruthy :: "cell \<Rightarrow> bool" where
  "cellTruthy (Text s) = (s \<noteq> [])"
| "cellTruthy (NonText t s) = t"

fun cellString :: "cell \<Rightarrow> string" where
  "cellString (Text s) = s"
| "cellString (NonText t s) = s"

text \<open>\<^verbatim>\<open>row[0]\<close>; it is \<^verbatim>\<open>undefined\<close> on a row without cells.\<close>

definition firstCell :: "cell list \<Rightarrow> cell" where
  "firstCell row = (case row of [] \<Rightarrow> NonText False ''undefined'' | c # _ \<Rightarrow> c)"

text \<open>The filter \<^verbatim>\<open>val && String(val).trim() !== ''\<close>.\<close>

definition nonBlank :: "cell \<Rightarrow> bool" where
  "nonBlank val = (cellTruthy val \<and> str_trim (cellString val) \<noteq> [])"

datatype script_error = ServiceError

text \<open>
  A tab of the spreadsheet. \<^verbatim>\<open>getDataRange().getValues()\<close> is a call to the spreadsheet
  service; the script makes it once per tab when it scans the tabs and once more when it
  loads the technologies, and each call returns the rows or throws.
\<close>

record sheet =
  getName :: string
  valuesAtScan :: "script_error + cell list list"
  valuesAtLoad :: "script_error + cell list list"

text \<open>The test that skips system and response sheets.\<close>

definition isSystemSheet :: "string \<Rightarrow> bool" where
  "isSystemSheet sheetName =
     (str_includes sheetName ''Form Responses'' \<or> str_includes sheetName ''Responses''
      \<or> str_includes sheetName ''_''
      \<or> str_includes (str_toLowerCase sheetName) ''sheet'')"

text \<open>
  The \<^verbatim>\<open>sheets.forEach\<close> loop of \<open>getAllCloudProvidersFromTabs\<close>; an exception leaves
  the loop, and the function's handler then returns the empty list.
\<close>

fun tabsLoop :: "sheet list \<Rightarrow> string list \<Rightarrow> script_error + string list" where
  "tabsLoop [] cloudProviders = Inr cloudProviders"
| "tabsLoop (sh # rest) cloudProviders =
     (if isSystemSheet (getName sh) then tabsLoop rest cloudProviders
      else case valuesAtScan sh of
             Inl e \<Rightarrow> Inl e
           | Inr vals \<Rightarrow>
               if length vals > 0 then
                 (let firstColumnData = filter nonBlank (map firstCell vals)
                  in if length firstColumnData > 0
                     then tabsLoop rest (cloudProviders @ [getName sh])
                     else tabsLoop rest cloudProviders)
               else tabsLoop rest cloudProviders)"

definition getAllCloudProvidersFromTabs :: "sheet list \<Rightarrow> string list" where
  "getAllCloudProvidersFromTabs spreadsheet =
     (case tabsLoop spreadsheet [] of Inl e \<Rightarrow> [] | Inr cloudProviders \<Rightarrow> cloudProviders)"

definition getSheetByName :: "sheet list \<Rightarrow> string \<Rightarrow> sheet option" where
  "getSheetByName spreadsheet nm = find (\<lambda>sh. getName sh = nm) spreadsheet"

definition loadTechnologiesFromSheet :: "sheet list \<Rightarrow> string \<Rightarrow> string list" where
  "loadTechnologiesFromSheet spreadsheet nm =
     (case getSheetByName spreadsheet nm of
        None \<Rightarrow> []
      | Some sh \<Rightarrow>
          (case valuesAtLoad sh of
             Inl e \<Rightarrow> []
           | Inr vals \<Rightarrow>
               if length vals = 0 then []
               else map (\<lambda>val. str_trim (cellString val))
                      (filter nonBlank (map firstCell vals))))"

text \<open>The \<^verbatim>\<open>cloudProviders.forEach\<close> loop of \<open>loadAllCloudTechnologies\<close>.\<close>

fun loadLoop :: "sheet list \<Rightarrow> string list \<Rightarrow> string list object \<Rightarrow> string list object" where
  "loadLoop spreadsheet [] allData = allData"
| "loadLoop spreadsheet (provider # rest) allData =
     (let technologyList = loadTechnologiesFromSheet spreadsheet provider
      in if length technologyList > 0
         then loadLoop spreadsheet rest (object_set allData provider technologyList)
         else loadLoop spreadsheet rest allData)"

definition loadAllCloudTechnologies :: "sheet list \<Rightarrow> string list \<Rightarrow> string list object" where
  "loadAllCloudTechnologies spreadsheet cloudProviders = loadLoop spreadsheet cloudProviders []"

text \<open>
  The reads of a spreadsheet agree when its tabs have different names and every tab
  returns at load time what it returned when the tabs were scanned (no call fails in
  between and no tab changes).
\<close>

definition readsAgree :: "sheet list \<Rightarrow> bool" where
  "readsAgree ss =
     (distinct (map getName ss) \<and> list_all (\<lambda>sh. valuesAtLoad sh = valuesAtScan sh) ss)"

section \<open>The form\<close>

datatype item_type =
  SECTION_HEADER | TEXT | PAGE_BREAK | MULTIPLE_CHOICE | CHECKBOX | PARAGRAPH_TEXT

text \<open>
  A form is the list of its items in display order. The handle of an item is its
  position; a choice created by \<^verbatim>\<open>createChoice(value, pageBreakItem)\<close> is the pair of the
  value and the handle of the page-break item it navigates to.
\<close>

type_synonym choice = "string \<times> nat"

record item =
  itemType :: item_type
  title :: string
  helpText :: string
  required :: bool
  choices :: "choice list"
  choiceValues :: "string list"

type_synonym form = "item list"

definition addItem :: "item_type \<Rightarrow> form \<Rightarrow> form \<times> nat" where
  "addItem ty f =
     (f @ [\<lparr> itemType = ty, title = [], helpText = [], required = False,
              choices = [], choiceValues = [] \<rparr>], length f)"

definition updateItem :: "nat \<Rightarrow> (item \<Rightarrow> item) \<Rightarrow> form \<Rightarrow> form" where
  "updateItem h g f = (if h < length f then f[h := g (f ! h)] else f)"

definition setTitle :: "nat \<Rightarrow> string \<Rightarrow> form \<Rightarrow> form" where
  "setTitle h t = updateItem h (\<lambda>it. it\<lparr>title := t\<rparr>)"

definition setHelpText :: "nat \<Rightarrow> string \<Rightarrow> form \<Rightarrow> form" where
  "setHelpText h t = updateItem h (\<lambda>it. it\<lparr>helpText := t\<rparr>)"

definition setRequired :: "nat \<Rightarrow> bool \<Rightarrow> form \<Rightarrow> form" where
  "setRequired h b = updateItem h (\<lambda>it. it\<lparr>required := b\<rparr>)"

definition setChoices :: "nat \<Rightarrow> choice list \<Rightarrow> form \<Rightarrow> form" where
  "setChoices h cs = updateItem h (\<lambda>it. it\<lparr>choices := cs\<rparr>)"

definition setChoiceValues :: "nat \<Rightarrow> string list \<Rightarrow> form \<Rightarrow> form" where
  "setChoiceValues h vs = updateItem h (\<lambda>it. it\<lparr>choiceValues := vs\<rparr>)"

text \<open>
  Pages: every page-break item starts a new page, and the items before the first page
  break are the first page.
\<close>

fun pageBreaksFrom :: "nat \<Rightarrow> form \<Rightarrow> nat list" where
  "pageBreaksFrom h [] = []"
| "pageBreaksFrom h (it # f) =
     (if itemType it = PAGE_BREAK then h # pageBreaksFrom (Suc h) f
      else pageBreaksFrom (Suc h) f)"

definition pageBreakItems :: "form \<Rightarrow> nat list" where
  "pageBreakItems f = pageBreaksFrom 0 f"

definition pageCount :: "form \<Rightarrow> nat" where
  "pageCount f = Suc (length (pageBreakItems f))"

definition clearFormContent :: "form \<Rightarrow> form" where
  "clearFormContent f = []"

definition createWelcomeSection :: "form \<Rightarrow> form" where
  "createWelcomeSection f =
     (let (f, welcomeHeader) = addItem SECTION_HEADER f;
          (f, nameQuestion) = addItem TEXT f;
          f = setTitle nameQuestion ''Full Name of a Padawan'' f;
          f = setHelpText nameQuestion ''Enter full name'' f;
          f = setRequired nameQuestion True f;
          (f, nameQuestion1) = addItem TEXT f;
          f = setTitle nameQuestion1 ''Project Name'' f;
          f = setHelpText nameQuestion1 ''Enter the project name'' f;
          f = setRequired nameQuestion1 True f
      in f)"

definition createCloudProviderSelection :: "form \<Rightarrow> string list \<Rightarrow> form \<times> nat" where
  "createCloudProviderSelection f cloudProviders =
     (let (f, cloudPageBreak) = addItem PAGE_BREAK f;
          f = setTitle cloudPageBreak ''Cloud Provider Selection'' f;
          (f, cloudQuestion) = addItem MULTIPLE_CHOICE f;
          f = setTitle cloudQuestion ''Choose Your Cloud Provider'' f;
          f = setRequired cloudQuestion True f
      in (f, cloudQuestion))"

record cloud_section =
  pageBreak :: nat
  nextQuestion :: nat

text \<open>The title of a provider's checkbox question.\<close>

definition technologyTitle :: "string \<Rightarrow> string" where
  "technologyTitle cloudProvider = cloudProvider @ '' Technology Experience''"

text \<open>
  The body of the loop of \<open>createCloudTechnologySections\<close> for one provider and its
  technologies.
\<close>

definition createSection ::
  "string \<Rightarrow> string list \<Rightarrow> form \<times> cloud_section object \<Rightarrow> form \<times> cloud_section object" where
  "createSection cloudProvider technologyList st =
     (let (f, cloudSections) = st;
          (f, techPageBreak) = addItem PAGE_BREAK f;
          f = setTitle techPageBreak (cloudProvider @ '' Technologies'') f;
          f = setHelpText techPageBreak
                (''Select all '' @ cloudProvider @ '' technologies you have experience with:'') f;
          (f, techQuestion) = addItem CHECKBOX f;
          f = setTitle techQuestion (technologyTitle cloudProvider) f;
          f = setHelpText techQuestion
                (''Check all '' @ cloudProvider @ '' services and technologies you have used:'') f;
          f = setChoiceValues techQuestion technologyList f;
          f = setRequired techQuestion False f;
          (f, nextQ) = addItem MULTIPLE_CHOICE f;
          f = setTitle nextQ ''Next step'' f;
          f = setHelpText nextQ
                ''Choose another cloud to evaluate, or submit the feedback.'' f;
          f = setRequired nextQ True f
      in (f, object_set cloudSections cloudProvider
               \<lparr> pageBreak = techPageBreak, nextQuestion = nextQ \<rparr>))"

fun sectionsLoop ::
  "(string \<times> string list) list \<Rightarrow> form \<times> cloud_section object \<Rightarrow> form \<times> cloud_section object" where
  "sectionsLoop [] st = st"
| "sectionsLoop ((cloudProvider, technologyList) # rest) st =
     sectionsLoop rest (createSection cloudProvider technologyList st)"

definition createCloudTechnologySections ::
  "form \<Rightarrow> string list object \<Rightarrow> form \<times> cloud_section object" where
  "createCloudTechnologySections f allCloudData =
     sectionsLoop (object_entries allCloudData) (f, [])"

definition createFinalSubmissionPage :: "form \<Rightarrow> form \<times> nat" where
  "createFinalSubmissionPage f =
     (let (f, finalPage) = addItem PAGE_BREAK f;
          f = setTitle finalPage ''Feedback Complete'' f;
          f = setHelpText finalPage
                ''Thank you for completing the Padawan cloud technology skills questionnaire!'' f;
          (f, commentsQuestion) = addItem PARAGRAPH_TEXT f;
          f = setTitle commentsQuestion ''Additional Comments (Optional)'' f;
          f = setHelpText commentsQuestion
                ''Any additional information about your cloud experience:'' f;
          f = setRequired commentsQuestion False f
      in (f, finalPage))"

text \<open>
  \<open>setupConditionalNavigation\<close>. \<open>entries\<close> are the entries of \<open>cloudSections\<close> in
  \<^verbatim>\<open>Object.keys\<close> order, so \<open>providers[j]\<close> is \<open>fst (entries ! j)\<close> and
  \<open>cloudSections[providers[j]]\<close> is \<open>snd (entries ! j)\<close>. The inner loop is the
  \<^verbatim>\<open>for (let j = idx + 1; j < providers.length; j++)\<close>.
\<close>

function nextChoicesLoop ::
  "(string \<times> cloud_section) list \<Rightarrow> nat \<Rightarrow> choice list \<Rightarrow> choice list" where
  "nextChoicesLoop entries j nextChoices =
     (if j < length entries
      then nextChoicesLoop entries (j + 1)
             (nextChoices @ [(fst (entries ! j), pageBreak (snd (entries ! j)))])
      else nextChoices)"
  by pat_completeness auto
termination
  by (relation "measure (\<lambda>(entries, j, nextChoices). length entries - j)") auto

function navigationLoop :: "(string \<times> cloud_section) list \<Rightarrow> nat \<Rightarrow> nat \<Rightarrow> form \<Rightarrow> form" where
  "navigationLoop entries finalPage idx f =
     (if idx < length entries
      then (let nextQ = nextQuestion (snd (entries ! idx));
                nextChoices = nextChoicesLoop entries (idx + 1) [];
                nextChoices = nextChoices @ [(''Go to Submit'', finalPage)]
            in navigationLoop entries finalPage (idx + 1) (setChoices nextQ nextChoices f))
      else f)"
  by pat_completeness auto
termination
  by (relation "measure (\<lambda>(entries, finalPage, idx, f). length entries - idx)") auto

definition setupConditionalNavigation ::
  "form \<Rightarrow> nat \<Rightarrow> cloud_section object \<Rightarrow> nat \<Rightarrow> form" where
  "setupConditionalNavigation f cloudQuestion cloudSections finalPage =
     (let entries = object_entries cloudSections;
          startChoices = map (\<lambda>(p, s). (p, pageBreak s)) entries;
          startChoices = startChoices @ [(''Go to Submit'', finalPage)];
          f = setChoices cloudQuestion startChoices f
      in navigationLoop entries finalPage 0 f)"

text \<open>
  \<open>createCompleteFormStructure\<close> mutates the form; the model returns the form
  together with the handles the function holds in local variables.
\<close>

record form_structure =
  builtForm :: form
  builtCloudQuestion :: nat
  builtCloudSections :: "cloud_section object"
  builtFinalPage :: nat

definition createCompleteFormStructure :: "form \<Rightarrow> string list object \<Rightarrow> form_structure" where
  "createCompleteFormStructure f allCloudData =
     (let cloudProviders = object_keys allCloudData;
          f = createWelcomeSection f;
          (f, cloudQuestion) = createCloudProviderSelection f cloudProviders;
          (f, cloudSections) = createCloudTechnologySections f allCloudData;
          (f, finalPage) = createFinalSubmissionPage f;
          f = setupConditionalNavigation f cloudQuestion cloudSections finalPage
      in \<lparr> builtForm = f, builtCloudQuestion = cloudQuestion,
           builtCloudSections = cloudSections, builtFinalPage = finalPage \<rparr>)"

subsection \<open>initializeFormV5\<close>

record init_data =
  dataCloudProviders :: "string list"
  totalTechnologies :: nat
  cloudData :: "string list object"

datatype init_result = Success init_data | Failure string

definition initializeFormV5 :: "sheet list \<Rightarrow> form \<Rightarrow> init_result \<times> form" where
  "initializeFormV5 ss f =
     (let cloudProviders = getAllCloudProvidersFromTabs ss
      in if length cloudProviders = 0
         then (Failure ''Error: No valid cloud provider tabs found in spreadsheet'', f)
         else (let allCloudData = loadAllCloudTechnologies ss cloudProviders;
                   f = clearFormContent f;
                   built = createCompleteFormStructure f allCloudData
               in (Success \<lparr> dataCloudProviders = cloudProviders,
                             totalTechnologies =
                               foldl (\<lambda>sum techs. sum + length techs) 0
                                 (object_values allCloudData),
                             cloudData = allCloudData \<rparr>,
                   builtForm built)))"

subsection \<open>The built structure in closed form\<close>

text \<open>
  The items each builder function leaves in the form, in closed form: the builders only
  append items and set attributes of the item they have just added.
\<close>

definition welcomeItems :: "item list" where
  "welcomeItems =
     [\<lparr> itemType = SECTION_HEADER, title = [], helpText = [], required = False,
         choices = [], choiceValues = [] \<rparr>,
      \<lparr> itemType = TEXT, title = ''Full Name of a Padawan'', helpText = ''Enter full name'',
         required = True, choices = [], choiceValues = [] \<rparr>,
      \<lparr> itemType = TEXT, title = ''Project Name'', helpText = ''Enter the project name'',
         required = True, choices = [], choiceValues = [] \<rparr>]"

definition selectionItems :: "item list" where
  "selectionItems =
     [\<lparr> itemType = PAGE_BREAK, title = ''Cloud Provider Selection'', helpText = [],
         required = False, choices = [], choiceValues = [] \<rparr>,
      \<lparr> itemType = MULTIPLE_CHOICE, title = ''Choose Your Cloud Provider'', helpText = [],
         required = True, choices = [], choiceValues = [] \<rparr>]"

definition sectionItems :: "string \<times> string list \<Rightarrow> item list" where
  "sectionItems e =
     [\<lparr> itemType = PAGE_BREAK, title = fst e @ '' Technologies'',
         helpText = ''Select all '' @ fst e @ '' technologies you have experience with:'',
         required = False, choices = [], choiceValues = [] \<rparr>,
      \<lparr> itemType = CHECKBOX, title = technologyTitle (fst e),
         helpText = ''Check all '' @ fst e @ '' services and technologies you have used:'',
         required = False, choices = [], choiceValues = snd e \<rparr>,
      \<lparr> itemType = MULTIPLE_CHOICE, title = ''Next step'',
         helpText = ''Choose another cloud to evaluate, or submit the feedback.'',
         required = True, choices = [], choiceValues = [] \<rparr>]"

definition finalItems :: "item list" where
  "finalItems =
     [\<lparr> itemType = PAGE_BREAK, title = ''Feedback Complete'',
         helpText = ''Thank you for completing the Padawan cloud technology skills questionnaire!'',
         required = False, choices = [], choiceValues = [] \<rparr>,
      \<lparr> itemType = PARAGRAPH_TEXT, title = ''Additional Comments (Optional)'',
         helpText = ''Any additional information about your cloud experience:'',
         required = False, choices = [], choiceValues = [] \<rparr>]"

text \<open>
  The section table of a run that starts adding sections at handle \<open>h\<close>: each provider
  takes three consecutive handles, the first for its page break and the third for its
  next-step question.
\<close>

fun sectionTable :: "nat \<Rightarrow> (string \<times> 'a) list \<Rightarrow> cloud_section object" where
  "sectionTable h [] = []"
| "sectionTable h (e # es) =
     (fst e, \<lparr> pageBreak = h, nextQuestion = h + 2 \<rparr>) # sectionTable (h + 3) es"

text \<open>The choice lists that \<open>setupConditionalNavigation\<close> computes.\<close>

definition startChoicesOf :: "(string \<times> cloud_section) list \<Rightarrow> nat \<Rightarrow> choice list" where
  "startChoicesOf entries fin =
     map (\<lambda>e. (fst e, pageBreak (snd e))) entries @ [(''Go to Submit'', fin)]"

definition nextChoicesOf :: "(string \<times> cloud_section) list \<Rightarrow> nat \<Rightarrow> nat \<Rightarrow> choice list" where
  "nextChoicesOf entries fin idx =
     map (\<lambda>e. (fst e, pageBreak (snd e))) (drop (Suc idx) entries) @ [(''Go to Submit'', fin)]"

text \<open>
  The specification's \<open>build\<close>: steps 3 and 4 of \<open>initializeFormV5\<close>, which clear the
  form and create the complete structure for the catalog.
\<close>

definition build :: "form \<Rightarrow> string list object \<Rightarrow> form_structure" where
  "build f catalog = createCompleteFormStructure (clearFormContent f) catalog"

text \<open>
  \<open>cloudSections[p].pageBreak\<close> and \<open>cloudSections[p].nextQuestion\<close> of a built
  structure: the page of provider \<open>p\<close> and the next-step question on it.
\<close>

definition providerPage :: "form_structure \<Rightarrow> string \<Rightarrow> nat option" where
  "providerPage b p = map_option pageBreak (object_get (builtCloudSections b) p)"

definition nextStepQuestion :: "form_structure \<Rightarrow> string \<Rightarrow> nat option" where
  "nextStepQuestion b p = map_option nextQuestion (object_get (builtCloudSections b) p)"

text \<open>The built form before any choice is set.\<close>

definition plainForm :: "string list object \<Rightarrow> form" where
  "plainForm catalog =
     welcomeItems @ selectionItems @ concat (map sectionItems (object_entries catalog)) @ finalItems"

section \<open>Properties of submission processing\<close>

subsection \<open>First-seen order and the visited providers\<close>

lemma foldl_set_add: "foldl set_add acc xs = acc @ filter (\<lambda>y. y \<notin> set acc) (first_seen xs)"
proof (induction xs arbitrary: acc)
  case Nil
  then show ?case by simp
next
  case (Cons x xs)
  show ?case
  proof (cases "x \<in> set acc")
    case True
    then have "filter (\<lambda>y. y \<notin> set acc) (filter (\<lambda>y. y \<noteq> x) (first_seen xs))
             = filter (\<lambda>y. y \<notin> set acc) (first_seen xs)"
      by (auto intro: filter_cong)
    with True Cons.IH [of acc] show ?thesis by simp
  next
    case False
    have "filter (\<lambda>y. y \<notin> set (acc @ [x])) (first_seen xs)
        = filter (\<lambda>y. y \<notin> set acc) (filter (\<lambda>y. y \<noteq> x) (first_seen xs))"
      by (auto intro: filter_cong)
    with False Cons.IH [of "acc @ [x]"] show ?thesis by simp
  qed
qed

lemma first_occurrences_first_seen: "first_occurrences xs = first_seen xs"
  by (simp add: first_occurrences_def foldl_set_add)

lemma set_first_seen: "set (first_seen xs) = set xs"
  by (induction xs) auto

lemma distinct_first_seen: "distinct (first_seen xs)"
  by (induction xs) (auto simp: set_first_seen)

lemma first_seen_distinct_id: "distinct xs \<Longrightarrow> first_seen xs = xs"
  by (induction xs) (auto simp: set_first_seen intro: filter_True)

lemma sorted_first_seen:
  "sorted_wrt (\<lambda>a b. firstIndex xs a < firstIndex xs b) (first_seen xs)"
proof (induction xs)
  case Nil
  then show ?case by simp
next
  case (Cons x xs)
  have "sorted_wrt (\<lambda>a b. firstIndex xs a < firstIndex xs b) (filter (\<lambda>y. y \<noteq> x) (first_seen xs))"
    using Cons.IH by (rule sorted_wrt_filter)
  then have "sorted_wrt (\<lambda>a b. firstIndex (x # xs) a < firstIndex (x # xs) b)
               (filter (\<lambda>y. y \<noteq> x) (first_seen xs))"
    by (rule sorted_wrt_mono_rel [rotated]) (auto simp: firstIndex_def)
  then show ?case by (auto simp: firstIndex_def)
qed

lemma count_distinct:
  "distinct xs \<Longrightarrow> length (filter (\<lambda>y. y = p) xs) = (if p \<in> set xs then 1 else 0)"
  by (induction xs) auto

lemma scan_selected:
  "selectedCloudProvider (submission (foldl processItem st items))
   = selectedCloudProvider (submission st) @ recordedProviders items"
proof (induction items arbitrary: st)
  case Nil
  then show ?case by simp
next
  case (Cons qa items)
  obtain t a where qa: "qa = (t, a)" by (cases qa)
  show ?case
    unfolding foldl_Cons Cons.IH qa
    by (simp add: processItem_def Let_def)
qed

lemma prepared_selected:
  "selectedCloudProvider (submission (prepared now r))
   = first_seen (recordedProviders (itemResponses r))"
  by (simp add: prepared_def scanned_def Let_def split_def scan_selected
      initialSubmission_def first_occurrences_first_seen)

lemma process_fallback:
  assumes "recordedProviders (itemResponses r) = []"
  shows "process now r = [fallbackRow (submission (prepared now r))]"
  using assms by (simp add: process_def rowsToAppend_def prepared_selected)

lemma cloudsLoop_plain_names:
  "set clouds \<inter> set objectPrototypeNames = {} \<Longrightarrow>
   map colClouds (fst (cloudsLoop d clouds)) = clouds \<and> snd (cloudsLoop d clouds) = None"
proof (induction clouds)
  case Nil
  then show ?case by simp
next
  case (Cons cloud rest)
  then have "cloud \<notin> set objectPrototypeNames" by auto
  then have "\<exists>row. cloudRow d cloud = Inr row \<and> colClouds row = cloud"
    by (cases "map_of (technologies d) cloud") (simp_all add: cloudRow_def object_read_def rowFor_def)
  then obtain row where r: "cloudRow d cloud = Inr row" and c: "colClouds row = cloud"
    by blast
  from Cons show ?case by (simp add: r c)
qed

lemma process_clouds:
  assumes "recordedProviders (itemResponses r) \<noteq> []"
    and "set (recordedProviders (itemResponses r)) \<inter> set objectPrototypeNames = {}"
  shows "map colClouds (process now r) = first_seen (recordedProviders (itemResponses r))"
proof -
  have "first_seen (recordedProviders (itemResponses r)) \<noteq> []"
    using assms(1) set_first_seen [of "recordedProviders (itemResponses r)"] by auto
  moreover have "set (first_seen (recordedProviders (itemResponses r))) \<inter> set objectPrototypeNames = {}"
    using assms(2) by (simp add: set_first_seen)
  ultimately show ?thesis
    by (simp add: process_def rowsToAppend_def prepared_selected cloudsLoop_plain_names)
qed

lemma scanned_selected:
  "selectedCloudProvider (submission (scanned now r)) = recordedProviders (itemResponses r)"
  by (simp add: scanned_def scan_selected initialSubmission_def)

text \<open>
  Claim C4. A response whose answers record no provider (nothing is pushed by the
  provider-select and next-step questions) yields exactly one output record: the
  fallback row, with empty provider field, technology count 0 and empty technology list.
\<close>
theorem no_provider_one_record:
  assumes "recordedProviders (itemResponses r) = []"
  shows "selectedCloudProvider (submission (scanned now r)) = []
         \<and> process now r = [fallbackRow (submission (prepared now r))]
         \<and> length (process now r) = 1
         \<and> colClouds (hd (process now r)) = []
         \<and> colTechnologiesCount (hd (process now r)) = 0
         \<and> colTechnologies (hd (process now r)) = []"
  using process_fallback [OF assms, of now] assms
  by (simp add: fallbackRow_def scanned_selected)

theorem no_provider_one_record_witness:
  "recordedProviders (itemResponses \<lparr>respondentEmail = Some ''lead@example.com'',
       itemResponses = [(''Full Name of a Padawan'', AStr ''Ann''),
                        (''Additional Comments (Optional)'', AStr ''none'')]\<rparr>) = []
   \<and> process 7 \<lparr>respondentEmail = Some ''lead@example.com'',
       itemResponses = [(''Full Name of a Padawan'', AStr ''Ann''),
                        (''Additional Comments (Optional)'', AStr ''none'')]\<rparr>
     = [\<lparr>colTimestamp = 7, colName = AStr ''Ann'', colProjectName = AStr [],
         colClouds = [], colTechnologiesCount = 0, colTechnologies = [],
         colComments = AStr ''none'', colTechLeadEmail = ''lead@example.com''\<rparr>]"
proof -
  let ?r = "\<lparr>respondentEmail = Some ''lead@example.com'',
       itemResponses = [(''Full Name of a Padawan'', AStr ''Ann''),
                        (''Additional Comments (Optional)'', AStr ''none'')]\<rparr>"
  have h: "recordedProviders (itemResponses ?r) = []" by simp
  have "fallbackRow (submission (prepared 7 ?r)) = \<lparr>colTimestamp = 7, colName = AStr ''Ann'', colProjectName = AStr [],
         colClouds = [], colTechnologiesCount = 0, colTechnologies = [],
         colComments = AStr ''none'', colTechLeadEmail = ''lead@example.com''\<rparr>"
    by code_simp
  with no_provider_one_record [OF h, of 7] h show ?thesis by simp
qed

text \<open>
  Deduplication: when no recorded provider bears the name of a member of
  \<^verbatim>\<open>Object.prototype\<close>, exactly one output record is emitted for each recorded provider,
  however often it is recorded, and the providers of the emitted records are the recorded
  providers without repetition, in the order in which they are first seen.
\<close>

lemma dedup_first_seen_plain_names:
  assumes "p \<in> set (recordedProviders (itemResponses r))"
    and "set (recordedProviders (itemResponses r)) \<inter> set objectPrototypeNames = {}"
  shows "selectedCloudProvider (submission (scanned now r)) = recordedProviders (itemResponses r)
         \<and> length (filter (\<lambda>rec. colClouds rec = p) (process now r)) = 1
         \<and> map colClouds (process now r) = first_occurrences (recordedProviders (itemResponses r))
         \<and> distinct (map colClouds (process now r))
         \<and> set (map colClouds (process now r)) = set (recordedProviders (itemResponses r))
         \<and> sorted_wrt (\<lambda>a b. firstIndex (recordedProviders (itemResponses r)) a
                              < firstIndex (recordedProviders (itemResponses r)) b)
             (map colClouds (process now r))"
proof -
  let ?vs = "recordedProviders (itemResponses r)"
  from assms(1) have ne: "?vs \<noteq> []" by auto
  have m: "map colClouds (process now r) = first_seen ?vs"
    using ne assms(2) by (rule process_clouds)
  have "length (filter (\<lambda>rec. colClouds rec = p) (process now r))
        = length (filter (\<lambda>y. y = p) (map colClouds (process now r)))"
    by (simp add: filter_map comp_def)
  also have "\<dots> = 1"
    using assms(1) by (simp add: m count_distinct distinct_first_seen set_first_seen)
  finally show ?thesis
    using m by (simp add: first_occurrences_first_seen distinct_first_seen set_first_seen
        sorted_first_seen scanned_selected)
qed

text \<open>
  Claim C5. The answers record the provider \<^verbatim>\<open>constructor\<close> twice (a tab name the scan
  accepts) and no technology list for it. The visited list is deduplicated to one entry,
  but the read \<^verbatim>\<open>techByCloud[cloud] || []\<close> then yields the inherited member of
  \<^verbatim>\<open>Object.prototype\<close> instead of the empty list: building the row throws, the handler of
  \<open>saveSubmissionV5\<close> logs the error, and no record is emitted for the provider, where the
  claim has exactly one. Providers after it in the visited list lose their records too.
\<close>

theorem duplicate_inherited_name_loses_record:
  "\<not> isSystemSheet ''constructor''
   \<and> recordedProviders [(''Choose Your Cloud Provider'', AStr ''constructor''),
                         (''Next step'', AStr ''constructor'')]
     = [''constructor'', ''constructor'']
   \<and> process 7 \<lparr>respondentEmail = None,
         itemResponses = [(''Choose Your Cloud Provider'', AStr ''constructor''),
                          (''Next step'', AStr ''constructor'')]\<rparr> = []
   \<and> resultSink (onFormSubmitV5 7 \<lparr>respondentEmail = None,
         itemResponses = [(''Choose Your Cloud Provider'', AStr ''constructor''),
                          (''Next step'', AStr ''constructor'')]\<rparr> None)
     = Some [HeaderRow headers]
   \<and> resultConsole (onFormSubmitV5 7 \<lparr>respondentEmail = None,
         itemResponses = [(''Choose Your Cloud Provider'', AStr ''constructor''),
                          (''Next step'', AStr ''constructor'')]\<rparr> None)
     = [LogProcessing,
        LogSubmissionProcessed (AStr []) (AStr []) [''constructor'', ''constructor''],
        LogErrorSaving TypeError]
   \<and> process 7 \<lparr>respondentEmail = None,
         itemResponses = [(''Choose Your Cloud Provider'', AStr ''constructor''),
                          (''Next step'', AStr ''AWS''),
                          (''AWS Technology Experience'', AArr [''EC2'']),
                          (''Next step'', AStr ''AWS'')]\<rparr> = []"
  by code_simp

text \<open>The records of \<open>process\<close> are what the handler appends to the sink.\<close>

lemma handler_appends_process:
  "resultSink (onFormSubmitV5 now r sink)
   = Some ((case sink of None \<Rightarrow> [HeaderRow headers] | Some rows \<Rightarrow> rows)
           @ map DataRow (process now r))"
  by (simp add: onFormSubmitV5_def saveSubmissionV5_def process_def Let_def split_def)

text \<open>The two-provider scenario of the specification.\<close>

lemma end_to_end_two_providers:
  "process 7 \<lparr>respondentEmail = None,
       itemResponses = [(''Choose Your Cloud Provider'', AStr ''AWS''),
                        (''AWS Technology Experience'', AArr [''EC2'']),
                        (''Next step'', AStr ''Azure''),
                        (''Azure Technology Experience'', AArr [''VM'']),
                        (''Next step'', AStr ''Go to Submit'')]\<rparr>
   = [\<lparr>colTimestamp = 7, colName = AStr [], colProjectName = AStr [],
       colClouds = ''AWS'', colTechnologiesCount = 1, colTechnologies = ''EC2'',
       colComments = AStr [], colTechLeadEmail = []\<rparr>,
      \<lparr>colTimestamp = 7, colName = AStr [], colProjectName = AStr [],
       colClouds = ''Azure'', colTechnologiesCount = 1, colTechnologies = ''VM'',
       colComments = AStr [], colTechLeadEmail = []\<rparr>]"
  by code_simp

subsection \<open>Running the handler twice\<close>









subsection \<open>Unmatched titles\<close>

lemma foldl_processItem_append:
  "foldl processItem st (xs @ ys) = foldl processItem (foldl processItem st xs) ys"
  by simp

text \<open>
  Claim C9, as amended. A pair whose title no branch of the chain accepts leaves the
  handler state (submission data and console) unchanged, and the whole run of the
  handler is the same as on the response without that pair. Nothing is logged for it.
\<close>

theorem unmatched_title_ignored:
  assumes "\<not> recognisedTitle questionTitle"
  shows "processItem st (questionTitle, answer) = st
         \<and> onFormSubmitV5 now (r\<lparr>itemResponses := before @ (questionTitle, answer) # after\<rparr>) sink
           = onFormSubmitV5 now (r\<lparr>itemResponses := before @ after\<rparr>) sink"
proof -
  have step: "\<And>st. processItem st (questionTitle, answer) = st"
    using assms by (simp add: processItem_def recognisedTitle_def Let_def)
  have "scanned now (r\<lparr>itemResponses := before @ (questionTitle, answer) # after\<rparr>)
        = scanned now (r\<lparr>itemResponses := before @ after\<rparr>)"
    by (simp add: scanned_def step initialSubmission_def)
  then show ?thesis
    by (simp add: step onFormSubmitV5_def prepared_def)
qed

theorem unmatched_title_ignored_witness:
  "\<not> recognisedTitle ''Team''
   \<and> processItem \<lparr>submission = initialSubmission 7 \<lparr>respondentEmail = None, itemResponses = []\<rparr>,
                   console = [LogProcessing]\<rparr> (''Team'', AStr ''Platform'')
     = \<lparr>submission = initialSubmission 7 \<lparr>respondentEmail = None, itemResponses = []\<rparr>,
        console = [LogProcessing]\<rparr>"
proof -
  have h: "\<not> recognisedTitle ''Team''" by code_simp
  from unmatched_title_ignored [OF h] h show ?thesis by simp
qed

text \<open>
  Claim C9 as stated fails: the console output of a run on a response with the unmatched
  title \<^verbatim>\<open>Team\<close> is that of a run on the empty response; no entry mentions the title.
\<close>

theorem unmatched_title_not_logged:
  "\<not> recognisedTitle ''Team''
   \<and> resultConsole (onFormSubmitV5 7
        \<lparr>respondentEmail = None, itemResponses = [(''Team'', AStr ''Platform'')]\<rparr> None)
     = [LogProcessing, LogSubmissionProcessed (AStr []) (AStr []) []]
   \<and> resultConsole (onFormSubmitV5 7 \<lparr>respondentEmail = None, itemResponses = []\<rparr> None)
     = [LogProcessing, LogSubmissionProcessed (AStr []) (AStr []) []]"
  by code_simp

subsection \<open>Decoding the provider from a question title\<close>









section \<open>Properties of the catalog loader\<close>

subsection \<open>Keys of objects\<close>

lemma set_key_order: "set (key_order ks) = set ks"
  by (auto simp: key_order_def)

lemma distinct_key_order: "distinct ks \<Longrightarrow> distinct (key_order ks)"
  by (auto simp: key_order_def)

lemma key_order_idem: "key_order (key_order ks) = key_order ks"
proof -
  let ?a = "sort_key decimal_value (filter isArrayIndex ks)"
  let ?b = "filter (\<lambda>k. \<not> isArrayIndex k) ks"
  have a1: "filter isArrayIndex ?a = ?a"
    by (rule filter_True) simp
  have a2: "filter isArrayIndex ?b = []"
    by (simp add: filter_empty_conv)
  have b1: "filter (\<lambda>k. \<not> isArrayIndex k) ?a = []"
    by (simp add: filter_empty_conv)
  have b2: "filter (\<lambda>k. \<not> isArrayIndex k) ?b = ?b"
    by simp
  have s: "sort_key decimal_value ?a = ?a"
    by (rule sort_key_id_if_sorted) simp
  show ?thesis
    unfolding key_order_def filter_append a1 a2 b1 b2 by (simp add: s)
qed

lemma set_object_keys: "set (object_keys obj) = fst ` set obj"
  by (simp add: object_keys_def set_key_order first_occurrences_first_seen set_first_seen)

lemma distinct_object_keys: "distinct (object_keys obj)"
  by (simp add: object_keys_def distinct_key_order first_occurrences_first_seen distinct_first_seen)

lemma keys_object_set: "fst ` set (object_set obj k v) = insert k (fst ` set obj)"
  by (induction obj k v rule: object_set.induct) auto

subsection \<open>System sheets\<close>

lemma tabsLoop_names:
  "tabsLoop ss acc = Inr ps \<Longrightarrow> n \<in> set ps \<Longrightarrow> n \<in> set acc \<or> \<not> isSystemSheet n"
proof (induction ss arbitrary: acc)
  case Nil
  then show ?case by simp
next
  case (Cons sh rest)
  from Cons.prems(1)
  have "\<exists>acc'. tabsLoop rest acc' = Inr ps
          \<and> (acc' = acc \<or> (acc' = acc @ [getName sh] \<and> \<not> isSystemSheet (getName sh)))"
    by (auto simp: Let_def split: if_splits sum.splits)
  then obtain acc' where t: "tabsLoop rest acc' = Inr ps"
    and a: "acc' = acc \<or> (acc' = acc @ [getName sh] \<and> \<not> isSystemSheet (getName sh))"
    by blast
  from Cons.IH [OF t Cons.prems(2)] a show ?case by auto
qed

lemma providers_not_system:
  assumes "n \<in> set (getAllCloudProvidersFromTabs ss)"
  shows "\<not> isSystemSheet n"
proof (cases "tabsLoop ss []")
  case (Inl e)
  with assms show ?thesis by (simp add: getAllCloudProvidersFromTabs_def)
next
  case (Inr ps)
  with assms have "n \<in> set ps" by (simp add: getAllCloudProvidersFromTabs_def)
  from tabsLoop_names [OF Inr this] show ?thesis by simp
qed

lemma keys_loadLoop:
  "fst ` set (loadLoop ss ps allData)
   = fst ` set allData \<union> {p \<in> set ps. loadTechnologiesFromSheet ss p \<noteq> []}"
  by (induction ss ps allData rule: loadLoop.induct) (auto simp: Let_def keys_object_set)

lemma keys_loadAll:
  "set (object_keys (loadAllCloudTechnologies ss ps))
   = {p \<in> set ps. loadTechnologiesFromSheet ss p \<noteq> []}"
  by (simp add: set_object_keys loadAllCloudTechnologies_def keys_loadLoop)

text \<open>
  Claim C10. A tab whose name contains \<^verbatim>\<open>Form Responses\<close>, \<^verbatim>\<open>Responses\<close>, an underscore
  or, in lower case, \<^verbatim>\<open>sheet\<close> is neither among the providers found by the tab scan
  nor a key of the catalog loaded from them; the sink tab \<^verbatim>\<open>V5_Responses\<close> is such a tab.
\<close>

theorem system_sheets_never_providers:
  "(isSystemSheet nm \<longrightarrow>
      nm \<notin> set (getAllCloudProvidersFromTabs ss)
      \<and> nm \<notin> set (object_keys (loadAllCloudTechnologies ss (getAllCloudProvidersFromTabs ss))))
   \<and> isSystemSheet ''V5_Responses''
   \<and> ''V5_Responses'' \<notin> set (getAllCloudProvidersFromTabs ss)
   \<and> ''V5_Responses'' \<notin> set (object_keys (loadAllCloudTechnologies ss (getAllCloudProvidersFromTabs ss)))"
proof -
  have v5: "isSystemSheet ''V5_Responses''" by code_simp
  have "\<And>n. isSystemSheet n \<Longrightarrow> n \<notin> set (getAllCloudProvidersFromTabs ss)"
    using providers_not_system by blast
  moreover have "\<And>n. isSystemSheet n \<Longrightarrow>
      n \<notin> set (object_keys (loadAllCloudTechnologies ss (getAllCloudProvidersFromTabs ss)))"
    using providers_not_system by (auto simp: keys_loadAll)
  ultimately show ?thesis using v5 by blast
qed

theorem system_sheets_never_providers_witness:
  "isSystemSheet ''My Sheet''
   \<and> getAllCloudProvidersFromTabs
       [\<lparr>getName = ''AWS'', valuesAtScan = Inr [[Text ''EC2'']], valuesAtLoad = Inr [[Text ''EC2'']]\<rparr>,
        \<lparr>getName = ''My Sheet'', valuesAtScan = Inr [[Text ''Notes'']], valuesAtLoad = Inr [[Text ''Notes'']]\<rparr>,
        \<lparr>getName = ''V5_Responses'', valuesAtScan = Inr [[Text ''Timestamp'']], valuesAtLoad = Inr [[Text ''Timestamp'']]\<rparr>]
     = [''AWS'']
   \<and> ''My Sheet'' \<notin> set (getAllCloudProvidersFromTabs
       [\<lparr>getName = ''AWS'', valuesAtScan = Inr [[Text ''EC2'']], valuesAtLoad = Inr [[Text ''EC2'']]\<rparr>,
        \<lparr>getName = ''My Sheet'', valuesAtScan = Inr [[Text ''Notes'']], valuesAtLoad = Inr [[Text ''Notes'']]\<rparr>,
        \<lparr>getName = ''V5_Responses'', valuesAtScan = Inr [[Text ''Timestamp'']], valuesAtLoad = Inr [[Text ''Timestamp'']]\<rparr>])"
proof -
  let ?ss = "[\<lparr>getName = ''AWS'', valuesAtScan = Inr [[Text ''EC2'']], valuesAtLoad = Inr [[Text ''EC2'']]\<rparr>,
        \<lparr>getName = ''My Sheet'', valuesAtScan = Inr [[Text ''Notes'']], valuesAtLoad = Inr [[Text ''Notes'']]\<rparr>,
        \<lparr>getName = ''V5_Responses'', valuesAtScan = Inr [[Text ''Timestamp'']], valuesAtLoad = Inr [[Text ''Timestamp'']]\<rparr>]"
  have h: "isSystemSheet ''My Sheet''" by code_simp
  have e: "getAllCloudProvidersFromTabs ?ss = [''AWS'']" by code_simp
  from system_sheets_never_providers [of "''My Sheet''" ?ss] h e show ?thesis by blast
qed

subsection \<open>Empty scans and failing loads\<close>

lemma tabsLoop_sheets:
  "tabsLoop ss acc = Inr ps \<Longrightarrow> n \<in> set ps \<Longrightarrow>
   n \<in> set acc \<or> (\<exists>sh \<in> set ss. \<exists>vals. getName sh = n \<and> valuesAtScan sh = Inr vals
                       \<and> vals \<noteq> [] \<and> filter nonBlank (map firstCell vals) \<noteq> [])"
proof (induction ss arbitrary: acc)
  case Nil
  then show ?case by simp
next
  case (Cons sh rest)
  from Cons.prems(1)
  have "\<exists>acc'. tabsLoop rest acc' = Inr ps
          \<and> (acc' = acc \<or> (acc' = acc @ [getName sh]
               \<and> (\<exists>vals. valuesAtScan sh = Inr vals \<and> vals \<noteq> []
                          \<and> filter nonBlank (map firstCell vals) \<noteq> [])))"
    by (auto simp: Let_def split: if_splits sum.splits)
  then obtain acc' where t: "tabsLoop rest acc' = Inr ps"
    and a: "acc' = acc \<or> (acc' = acc @ [getName sh]
               \<and> (\<exists>vals. valuesAtScan sh = Inr vals \<and> vals \<noteq> []
                          \<and> filter nonBlank (map firstCell vals) \<noteq> []))"
    by blast
  from Cons.IH [OF t Cons.prems(2)] a show ?case by auto
qed

lemma find_distinct_name:
  "distinct (map getName ss) \<Longrightarrow> sh \<in> set ss \<Longrightarrow>
   find (\<lambda>s. getName s = getName sh) ss = Some sh"
  by (induction ss) (auto simp: rev_image_eqI)

lemma scanned_provider_loads:
  assumes "readsAgree ss" and "n \<in> set (getAllCloudProvidersFromTabs ss)"
  shows "loadTechnologiesFromSheet ss n \<noteq> []"
proof -
  from assms(2) obtain ps where t: "tabsLoop ss [] = Inr ps" and n: "n \<in> set ps"
    by (cases "tabsLoop ss []") (auto simp: getAllCloudProvidersFromTabs_def)
  from tabsLoop_sheets [OF t n] obtain sh vals where sh: "sh \<in> set ss" "getName sh = n"
    and v: "valuesAtScan sh = Inr vals" "vals \<noteq> []" "filter nonBlank (map firstCell vals) \<noteq> []"
    by auto
  from assms(1) sh have f: "getSheetByName ss n = Some sh"
    using find_distinct_name [of ss sh] by (auto simp: readsAgree_def getSheetByName_def)
  from assms(1) sh(1) v(1) have l: "valuesAtLoad sh = Inr vals"
    by (auto simp: readsAgree_def list_all_iff)
  show ?thesis using v(2,3) by (simp add: loadTechnologiesFromSheet_def f l)
qed

lemma catalog_keys_when_reads_agree:
  assumes "readsAgree ss"
  shows "set (object_keys (loadAllCloudTechnologies ss (getAllCloudProvidersFromTabs ss)))
         = set (getAllCloudProvidersFromTabs ss)"
  using scanned_provider_loads [OF assms] by (auto simp: keys_loadAll)

text \<open>
  Claim C6, as amended. The build fails, with a structured failure result, exactly when
  the tab scan finds no provider. Otherwise it succeeds, and the catalog holds the
  scanned providers whose load yields at least one technology: a provider whose load
  fails or yields nothing is skipped. The check is made before loading and not repeated;
  when the reads agree, the catalog is empty exactly when the build fails.
\<close>

theorem no_provider_tabs_fail_load_failures_skip:
  "(getAllCloudProvidersFromTabs ss = [] \<longrightarrow>
      initializeFormV5 ss f
      = (Failure ''Error: No valid cloud provider tabs found in spreadsheet'', f))
   \<and> (getAllCloudProvidersFromTabs ss \<noteq> [] \<longrightarrow>
      (\<exists>d. fst (initializeFormV5 ss f) = Success d
           \<and> dataCloudProviders d = getAllCloudProvidersFromTabs ss
           \<and> cloudData d = loadAllCloudTechnologies ss (getAllCloudProvidersFromTabs ss)
           \<and> set (object_keys (cloudData d))
             = {p \<in> set (getAllCloudProvidersFromTabs ss). loadTechnologiesFromSheet ss p \<noteq> []}))
   \<and> (readsAgree ss \<longrightarrow>
        (object_keys (loadAllCloudTechnologies ss (getAllCloudProvidersFromTabs ss)) = []
         \<longleftrightarrow> initializeFormV5 ss f
             = (Failure ''Error: No valid cloud provider tabs found in spreadsheet'', f)))"
proof -
  have a: "getAllCloudProvidersFromTabs ss = [] \<longrightarrow>
      initializeFormV5 ss f
      = (Failure ''Error: No valid cloud provider tabs found in spreadsheet'', f)"
    by (simp add: initializeFormV5_def)
  have b: "getAllCloudProvidersFromTabs ss \<noteq> [] \<longrightarrow>
      (\<exists>d. fst (initializeFormV5 ss f) = Success d
           \<and> dataCloudProviders d = getAllCloudProvidersFromTabs ss
           \<and> cloudData d = loadAllCloudTechnologies ss (getAllCloudProvidersFromTabs ss)
           \<and> set (object_keys (cloudData d))
             = {p \<in> set (getAllCloudProvidersFromTabs ss). loadTechnologiesFromSheet ss p \<noteq> []})"
    by (simp add: initializeFormV5_def Let_def keys_loadAll)
  have c: "object_keys (loadAllCloudTechnologies ss (getAllCloudProvidersFromTabs ss)) = []
         \<longleftrightarrow> initializeFormV5 ss f
             = (Failure ''Error: No valid cloud provider tabs found in spreadsheet'', f)"
    if r: "readsAgree ss"
  proof -
    have "object_keys (loadAllCloudTechnologies ss (getAllCloudProvidersFromTabs ss)) = []
          \<longleftrightarrow> getAllCloudProvidersFromTabs ss = []"
      using catalog_keys_when_reads_agree [OF r] by (metis set_empty)
    also have "\<dots> \<longleftrightarrow> initializeFormV5 ss f
             = (Failure ''Error: No valid cloud provider tabs found in spreadsheet'', f)"
      by (auto simp: initializeFormV5_def Let_def)
    finally show ?thesis .
  qed
  from a b c show ?thesis by blast
qed

theorem no_provider_tabs_fail_load_failures_skip_witness:
  "getAllCloudProvidersFromTabs [] = []
   \<and> initializeFormV5 [] [] = (Failure ''Error: No valid cloud provider tabs found in spreadsheet'', [])
   \<and> getAllCloudProvidersFromTabs
       [\<lparr>getName = ''AWS'', valuesAtScan = Inr [[Text ''EC2'']], valuesAtLoad = Inr [[Text ''EC2'']]\<rparr>,
        \<lparr>getName = ''Azure'', valuesAtScan = Inr [[Text ''VM'']], valuesAtLoad = Inl ServiceError\<rparr>]
     \<noteq> []
   \<and> (\<exists>d. fst (initializeFormV5
       [\<lparr>getName = ''AWS'', valuesAtScan = Inr [[Text ''EC2'']], valuesAtLoad = Inr [[Text ''EC2'']]\<rparr>,
        \<lparr>getName = ''Azure'', valuesAtScan = Inr [[Text ''VM'']], valuesAtLoad = Inl ServiceError\<rparr>] [])
        = Success d
      \<and> dataCloudProviders d = [''AWS'', ''Azure'']
      \<and> cloudData d = [(''AWS'', [''EC2''])])
   \<and> readsAgree
       [\<lparr>getName = ''AWS'', valuesAtScan = Inr [[Text ''EC2'']], valuesAtLoad = Inr [[Text ''EC2'']]\<rparr>]
   \<and> initializeFormV5
       [\<lparr>getName = ''AWS'', valuesAtScan = Inr [[Text ''EC2'']], valuesAtLoad = Inr [[Text ''EC2'']]\<rparr>] []
     \<noteq> (Failure ''Error: No valid cloud provider tabs found in spreadsheet'', [])"
proof -
  let ?ok = "[\<lparr>getName = ''AWS'', valuesAtScan = Inr [[Text ''EC2'']], valuesAtLoad = Inr [[Text ''EC2'']]\<rparr>]"
  have r: "readsAgree ?ok" by code_simp
  have ko: "object_keys (loadAllCloudTechnologies ?ok (getAllCloudProvidersFromTabs ?ok)) = [''AWS'']"
    by code_simp
  from no_provider_tabs_fail_load_failures_skip [of ?ok "[]"] r ko
  have c: "initializeFormV5 ?ok []
           \<noteq> (Failure ''Error: No valid cloud provider tabs found in spreadsheet'', [])"
    by auto
  let ?ss = "[\<lparr>getName = ''AWS'', valuesAtScan = Inr [[Text ''EC2'']], valuesAtLoad = Inr [[Text ''EC2'']]\<rparr>,
        \<lparr>getName = ''Azure'', valuesAtScan = Inr [[Text ''VM'']], valuesAtLoad = Inl ServiceError\<rparr>]"
  have h0: "getAllCloudProvidersFromTabs [] = []" by code_simp
  have e: "getAllCloudProvidersFromTabs ?ss = [''AWS'', ''Azure'']" by code_simp
  have l: "loadAllCloudTechnologies ?ss [''AWS'', ''Azure''] = [(''AWS'', [''EC2''])]" by code_simp
  from e have h1: "getAllCloudProvidersFromTabs ?ss \<noteq> []" by simp
  from no_provider_tabs_fail_load_failures_skip [of "[]" "[]"] h0
  have a: "initializeFormV5 [] [] = (Failure ''Error: No valid cloud provider tabs found in spreadsheet'', [])"
    by blast
  from no_provider_tabs_fail_load_failures_skip [of ?ss "[]"] h1
  obtain d where "fst (initializeFormV5 ?ss []) = Success d"
    and "dataCloudProviders d = getAllCloudProvidersFromTabs ?ss"
    and "cloudData d = loadAllCloudTechnologies ?ss (getAllCloudProvidersFromTabs ?ss)"
    by blast
  then have "fst (initializeFormV5 ?ss []) = Success d \<and> dataCloudProviders d = [''AWS'', ''Azure'']
      \<and> cloudData d = [(''AWS'', [''EC2''])]"
    by (simp add: e l)
  with h0 a h1 r c show ?thesis by blast
qed

text \<open>
  Claim C6 as stated fails: when the only provider's load fails, the catalog is empty
  and the build still reports success.
\<close>

theorem zero_survivors_build_succeeds:
  "loadAllCloudTechnologies
       [\<lparr>getName = ''AWS'', valuesAtScan = Inr [[Text ''EC2'']], valuesAtLoad = Inl ServiceError\<rparr>]
       (getAllCloudProvidersFromTabs
          [\<lparr>getName = ''AWS'', valuesAtScan = Inr [[Text ''EC2'']], valuesAtLoad = Inl ServiceError\<rparr>])
     = []
   \<and> fst (initializeFormV5
       [\<lparr>getName = ''AWS'', valuesAtScan = Inr [[Text ''EC2'']], valuesAtLoad = Inl ServiceError\<rparr>] [])
     = Success \<lparr>dataCloudProviders = [''AWS''], totalTechnologies = 0, cloudData = []\<rparr>"
proof -
  let ?ss = "[\<lparr>getName = ''AWS'', valuesAtScan = Inr [[Text ''EC2'']], valuesAtLoad = Inl ServiceError\<rparr>]"
  have e: "getAllCloudProvidersFromTabs ?ss = [''AWS'']" by code_simp
  have l: "loadAllCloudTechnologies ?ss [''AWS''] = []" by code_simp
  have v: "object_values ([] :: string list object) = []" by code_simp
  show ?thesis
    by (simp add: initializeFormV5_def Let_def e l v)
qed

section \<open>Properties of the form builder\<close>

text \<open>On success \<open>initializeFormV5\<close> leaves the form that \<open>build\<close> makes of the loaded catalog.\<close>

lemma initializeFormV5_builds:
  "getAllCloudProvidersFromTabs ss \<noteq> [] \<Longrightarrow>
   snd (initializeFormV5 ss f)
   = builtForm (build f (loadAllCloudTechnologies ss (getAllCloudProvidersFromTabs ss)))"
  by (simp add: initializeFormV5_def build_def Let_def)

subsection \<open>The builder functions in closed form\<close>

lemma updateItem_snoc: "updateItem (length f) g (f @ [x]) = f @ [g x]"
  by (simp add: updateItem_def)

lemmas builder_defs =
  Let_def case_prod_conv addItem_def setTitle_def setHelpText_def setRequired_def
  setChoiceValues_def updateItem_snoc

lemma createWelcomeSection_eq: "createWelcomeSection f = f @ welcomeItems"
proof -
  have "createWelcomeSection f = ((f @ [welcomeItems ! 0]) @ [welcomeItems ! 1]) @ [welcomeItems ! 2]"
    unfolding createWelcomeSection_def
    by (simp only: builder_defs) (simp add: welcomeItems_def)
  then show ?thesis by (simp add: welcomeItems_def)
qed

lemma createCloudProviderSelection_eq:
  "createCloudProviderSelection f ps = (f @ selectionItems, Suc (length f))"
proof -
  have "createCloudProviderSelection f ps
        = ((f @ [selectionItems ! 0]) @ [selectionItems ! 1], length (f @ [selectionItems ! 0]))"
    unfolding createCloudProviderSelection_def
    by (simp only: builder_defs) (simp add: selectionItems_def)
  then show ?thesis by (simp add: selectionItems_def)
qed

lemma createSection_eq:
  "createSection p t (f, cs)
   = (f @ sectionItems (p, t),
      object_set cs p \<lparr> pageBreak = length f, nextQuestion = length f + 2 \<rparr>)"
proof -
  have "createSection p t (f, cs)
        = (((f @ [sectionItems (p, t) ! 0]) @ [sectionItems (p, t) ! 1]) @ [sectionItems (p, t) ! 2],
           object_set cs p \<lparr> pageBreak = length f,
             nextQuestion = length ((f @ [sectionItems (p, t) ! 0]) @ [sectionItems (p, t) ! 1]) \<rparr>)"
    unfolding createSection_def
    by (simp only: builder_defs) (simp add: sectionItems_def)
  then show ?thesis by (simp add: sectionItems_def)
qed

lemma createFinalSubmissionPage_eq:
  "createFinalSubmissionPage f = (f @ finalItems, length f)"
proof -
  have "createFinalSubmissionPage f = ((f @ [finalItems ! 0]) @ [finalItems ! 1], length f)"
    unfolding createFinalSubmissionPage_def
    by (simp only: builder_defs) (simp add: finalItems_def)
  then show ?thesis by (simp add: finalItems_def)
qed

lemma object_set_fresh: "k \<notin> fst ` set obj \<Longrightarrow> object_set obj k v = obj @ [(k, v)]"
  by (induction obj k v rule: object_set.induct) auto

lemma sectionsLoop_eq:
  "distinct (map fst cs @ map fst entries) \<Longrightarrow>
   sectionsLoop entries (f, cs)
   = (f @ concat (map sectionItems entries), cs @ sectionTable (length f) entries)"
proof (induction entries arbitrary: f cs)
  case Nil
  then show ?case by simp
next
  case (Cons e entries)
  obtain p t where e: "e = (p, t)" by (cases e)
  from Cons.prems have fresh: "p \<notin> fst ` set cs" by (auto simp: e)
  from Cons.prems have d: "distinct (map fst (cs @ [(p, \<lparr> pageBreak = length f, nextQuestion = length f + 2 \<rparr>)]) @ map fst entries)"
    by (auto simp: e)
  have len: "length (f @ sectionItems (p, t)) = length f + 3"
    by (simp add: sectionItems_def)
  show ?case
    unfolding e sectionsLoop.simps createSection_eq object_set_fresh [OF fresh] Cons.IH [OF d] len
    by simp
qed

declare nextChoicesLoop.simps [simp del] navigationLoop.simps [simp del]

lemma map_filter_all_Some:
  "\<forall>k \<in> set ks. g k \<noteq> None \<Longrightarrow>
   map fst (List.map_filter (\<lambda>k. map_option (Pair k) (g k)) ks) = ks"
  by (induction ks) (auto simp: List.map_filter_simps)

lemma keys_object_entries: "map fst (object_entries obj) = object_keys obj"
proof -
  have "\<forall>k \<in> set (object_keys obj). object_get obj k \<noteq> None"
    by (auto simp: set_object_keys object_get_def map_of_eq_None_iff)
  then show ?thesis
    unfolding object_entries_def by (rule map_filter_all_Some)
qed

lemma map_filter_alist:
  "distinct (map fst al) \<Longrightarrow>
   List.map_filter (\<lambda>k. map_option (Pair k) (map_of al k)) (map fst al) = al"
proof (induction al)
  case Nil
  then show ?case by (simp add: List.map_filter_simps)
next
  case (Cons a al)
  obtain k v where a: "a = (k, v)" by (cases a)
  from Cons.prems have k: "k \<notin> fst ` set al" and d: "distinct (map fst al)"
    by (auto simp: a)
  have "List.map_filter (\<lambda>k'. map_option (Pair k') (map_of ((k, v) # al) k')) (map fst al)
        = List.map_filter (\<lambda>k'. map_option (Pair k') (map_of al k')) (map fst al)"
    unfolding List.map_filter_def using k
    by (intro arg_cong [where f = "map _"] filter_cong refl map_cong) auto
  then show ?case
    using Cons.IH [OF d] by (simp add: a List.map_filter_simps)
qed

lemma object_entries_id:
  assumes "distinct (map fst al)" and "key_order (map fst al) = map fst al"
  shows "object_entries al = al"
proof -
  have "object_keys al = map fst al"
    using assms by (simp add: object_keys_def first_occurrences_first_seen first_seen_distinct_id)
  then show ?thesis
    using assms(1) by (simp add: object_entries_def object_get_def map_filter_alist)
qed

lemma key_order_object_keys: "key_order (object_keys obj) = object_keys obj"
  by (simp add: object_keys_def key_order_idem)

lemma keys_sectionTable: "map fst (sectionTable h es) = map fst es"
  by (induction es arbitrary: h) auto

lemma length_sectionTable: "length (sectionTable h es) = length es"
  by (induction es arbitrary: h) auto

lemma nth_sectionTable:
  "i < length es \<Longrightarrow>
   sectionTable h es ! i = (fst (es ! i), \<lparr> pageBreak = h + 3 * i, nextQuestion = h + 3 * i + 2 \<rparr>)"
proof (induction es arbitrary: h i)
  case Nil
  then show ?case by simp
next
  case (Cons e es)
  show ?case
  proof (cases i)
    case 0
    then show ?thesis by simp
  next
    case (Suc j)
    with Cons.prems have "j < length es" by simp
    from Cons.IH [OF this, of "h + 3"] Suc show ?thesis by (simp add: algebra_simps)
  qed
qed

lemma object_entries_sectionTable:
  "object_entries (sectionTable h (object_entries obj)) = sectionTable h (object_entries obj)"
  by (rule object_entries_id)
     (simp_all add: keys_sectionTable keys_object_entries distinct_object_keys key_order_object_keys)

lemma createCloudTechnologySections_eq:
  "createCloudTechnologySections f obj
   = (f @ concat (map sectionItems (object_entries obj)),
      sectionTable (length f) (object_entries obj))"
  unfolding createCloudTechnologySections_def
  using sectionsLoop_eq [of "[]" "object_entries obj" f]
  by (simp add: keys_object_entries distinct_object_keys)

subsection \<open>The navigation loops\<close>

lemma nextChoicesLoop_eq:
  "nextChoicesLoop entries j acc = acc @ map (\<lambda>e. (fst e, pageBreak (snd e))) (drop j entries)"
proof (induction entries j acc rule: nextChoicesLoop.induct)
  case (1 entries j acc)
  show ?case
  proof (cases "j < length entries")
    case True
    then have "drop j entries = entries ! j # drop (Suc j) entries"
      by (simp add: Cons_nth_drop_Suc)
    with True "1.IH" [OF True] show ?thesis
      by (subst nextChoicesLoop.simps) simp
  next
    case False
    then show ?thesis by (subst nextChoicesLoop.simps) simp
  qed
qed

lemma navigationLoop_step:
  "idx < length entries \<Longrightarrow>
   navigationLoop entries fin idx f
   = navigationLoop entries fin (Suc idx)
       (setChoices (nextQuestion (snd (entries ! idx))) (nextChoicesOf entries fin idx) f)"
  by (subst navigationLoop.simps) (simp add: Let_def nextChoicesLoop_eq nextChoicesOf_def)

lemma navigationLoop_done: "\<not> idx < length entries \<Longrightarrow> navigationLoop entries fin idx f = f"
  by (subst navigationLoop.simps) simp

lemma length_setChoices: "length (setChoices h cs f) = length f"
  by (simp add: setChoices_def updateItem_def)

lemma nth_setChoices:
  "setChoices h cs f ! k = (if k = h \<and> h < length f then (f ! h)\<lparr>choices := cs\<rparr> else f ! k)"
  by (simp add: setChoices_def updateItem_def)

lemma length_navigationLoop: "length (navigationLoop entries fin idx f) = length f"
proof (induction "length entries - idx" arbitrary: idx f)
  case 0
  then show ?case by (simp add: navigationLoop_done)
next
  case (Suc n)
  then have lt: "idx < length entries" and n: "n = length entries - Suc idx" by simp_all
  show ?case
    unfolding navigationLoop_step [OF lt] Suc.hyps(1) [OF n] by (rule length_setChoices)
qed

lemma nth_navigationLoop_other:
  "(\<And>i. idx \<le> i \<Longrightarrow> i < length entries \<Longrightarrow> nextQuestion (snd (entries ! i)) \<noteq> k) \<Longrightarrow>
   navigationLoop entries fin idx f ! k = f ! k"
proof (induction "length entries - idx" arbitrary: idx f)
  case 0
  then show ?case by (simp add: navigationLoop_done)
next
  case (Suc n)
  then have lt: "idx < length entries" and n: "n = length entries - Suc idx" by simp_all
  have "nextQuestion (snd (entries ! idx)) \<noteq> k" using Suc.prems [of idx] lt by simp
  moreover have "navigationLoop entries fin (Suc idx)
       (setChoices (nextQuestion (snd (entries ! idx))) (nextChoicesOf entries fin idx) f) ! k
     = setChoices (nextQuestion (snd (entries ! idx))) (nextChoicesOf entries fin idx) f ! k"
    by (rule Suc.hyps(1) [OF n]) (use Suc.prems in auto)
  ultimately show ?case
    unfolding navigationLoop_step [OF lt] by (simp add: nth_setChoices)
qed

lemma nth_navigationLoop_next:
  assumes "distinct (map (\<lambda>e. nextQuestion (snd e)) entries)"
    and "idx \<le> i" and "i < length entries"
    and "nextQuestion (snd (entries ! i)) < length f"
  shows "navigationLoop entries fin idx f ! nextQuestion (snd (entries ! i))
         = (f ! nextQuestion (snd (entries ! i)))\<lparr>choices := nextChoicesOf entries fin i\<rparr>"
  using assms(2,4)
proof (induction "i - idx" arbitrary: idx f)
  case 0
  then have idx: "idx = i" by simp
  have lt: "idx < length entries" using assms(3) idx by simp
  have "navigationLoop entries fin (Suc i)
          (setChoices (nextQuestion (snd (entries ! i))) (nextChoicesOf entries fin i) f)
          ! nextQuestion (snd (entries ! i))
        = setChoices (nextQuestion (snd (entries ! i))) (nextChoicesOf entries fin i) f
          ! nextQuestion (snd (entries ! i))"
  proof (rule nth_navigationLoop_other)
    fix j assume "Suc i \<le> j" "j < length entries"
    with assms(1,3) show "nextQuestion (snd (entries ! j)) \<noteq> nextQuestion (snd (entries ! i))"
      by (auto simp: distinct_conv_nth dest!: spec [of _ i] spec [of _ j])
  qed
  then show ?case
    unfolding idx navigationLoop_step [OF assms(3)]
    using "0.prems"(2) by (simp add: nth_setChoices)
next
  case (Suc n)
  then have lt: "idx < length entries" and n: "n = i - Suc idx" and le: "Suc idx \<le> i"
    using assms(3) by simp_all
  have ne: "nextQuestion (snd (entries ! idx)) \<noteq> nextQuestion (snd (entries ! i))"
    using assms(1,3) lt le by (auto simp: distinct_conv_nth dest!: spec [of _ i] spec [of _ idx])
  have "navigationLoop entries fin (Suc idx)
          (setChoices (nextQuestion (snd (entries ! idx))) (nextChoicesOf entries fin idx) f)
          ! nextQuestion (snd (entries ! i))
        = (setChoices (nextQuestion (snd (entries ! idx))) (nextChoicesOf entries fin idx) f
            ! nextQuestion (snd (entries ! i)))\<lparr>choices := nextChoicesOf entries fin i\<rparr>"
    by (rule Suc.hyps(1) [OF n le]) (simp add: length_setChoices Suc.prems)
  then show ?case
    unfolding navigationLoop_step [OF lt] using ne by (simp add: nth_setChoices)
qed

lemma length_sections: "length (concat (map sectionItems es)) = 3 * length es"
  by (induction es) (auto simp: sectionItems_def)

lemma length_plainForm: "length (plainForm catalog) = 7 + 3 * length (object_keys catalog)"
  by (simp add: plainForm_def length_sections welcomeItems_def selectionItems_def finalItems_def
      keys_object_entries [symmetric])

lemma length_object_entries: "length (object_entries obj) = length (object_keys obj)"
  using keys_object_entries [of obj] by (metis length_map)

lemma build_eq:
  "build f catalog =
     \<lparr> builtForm =
         navigationLoop (sectionTable 5 (object_entries catalog))
           (5 + 3 * length (object_keys catalog)) 0
           (setChoices 4
              (startChoicesOf (sectionTable 5 (object_entries catalog))
                 (5 + 3 * length (object_keys catalog)))
              (plainForm catalog)),
       builtCloudQuestion = 4,
       builtCloudSections = sectionTable 5 (object_entries catalog),
       builtFinalPage = 5 + 3 * length (object_keys catalog) \<rparr>"
proof -
  have l1: "length welcomeItems = 3" by (simp add: welcomeItems_def)
  have l2: "length (welcomeItems @ selectionItems) = 5"
    by (simp add: welcomeItems_def selectionItems_def)
  have l3: "length ((welcomeItems @ selectionItems) @ concat (map sectionItems (object_entries catalog)))
            = 5 + 3 * length (object_keys catalog)"
    using l2 by (simp add: length_sections length_object_entries)
  show ?thesis
    unfolding build_def createCompleteFormStructure_def clearFormContent_def
      createWelcomeSection_eq append_Nil
    apply (simp only: Let_def createCloudProviderSelection_eq case_prod_conv
        createCloudTechnologySections_eq createFinalSubmissionPage_eq l1 l2 l3
        setupConditionalNavigation_def object_entries_sectionTable)
    apply (simp add: plainForm_def startChoicesOf_def split_def)
    done
qed

lemma nth_sections:
  "i < length es \<Longrightarrow> k < 3 \<Longrightarrow>
   (concat (map sectionItems es) @ post) ! (3 * i + k) = sectionItems (es ! i) ! k"
proof (induction es arbitrary: i)
  case Nil
  then show ?case by simp
next
  case (Cons e es)
  have l: "length (sectionItems e) = 3" by (simp add: sectionItems_def)
  show ?case
  proof (cases i)
    case 0
    with Cons.prems l show ?thesis by (simp add: nth_append)
  next
    case (Suc j)
    with Cons.prems have j: "j < length es" by simp
    have "3 * i + k = 3 + (3 * j + k)" using Suc by simp
    then have "(concat (map sectionItems (e # es)) @ post) ! (3 * i + k)
               = (concat (map sectionItems es) @ post) ! (3 * j + k)"
      using l by (simp add: nth_append)
    with Cons.IH [OF j Cons.prems(2)] Suc show ?thesis by simp
  qed
qed

lemma nth_plainForm_section:
  assumes "i < length (object_keys catalog)" and "k < 3"
  shows "plainForm catalog ! (5 + 3 * i + k) = sectionItems (object_entries catalog ! i) ! k"
proof -
  have l: "length (welcomeItems @ selectionItems) = 5"
    by (simp add: welcomeItems_def selectionItems_def)
  have "plainForm catalog
        = (welcomeItems @ selectionItems) @ (concat (map sectionItems (object_entries catalog)) @ finalItems)"
    by (simp add: plainForm_def)
  then have "plainForm catalog ! (5 + 3 * i + k)
        = (concat (map sectionItems (object_entries catalog)) @ finalItems) ! (3 * i + k)"
    using l by (simp add: nth_append)
  also have "\<dots> = sectionItems (object_entries catalog ! i) ! k"
    using assms by (intro nth_sections) (simp_all add: length_object_entries)
  finally show ?thesis .
qed

lemma nth_plainForm_head:
  "k < 5 \<Longrightarrow> plainForm catalog ! k = (welcomeItems @ selectionItems) ! k"
proof -
  assume k: "k < 5"
  have l: "length (welcomeItems @ selectionItems) = 5"
    by (simp add: welcomeItems_def selectionItems_def)
  have "plainForm catalog
        = (welcomeItems @ selectionItems) @ (concat (map sectionItems (object_entries catalog)) @ finalItems)"
    by (simp add: plainForm_def)
  then show ?thesis using k l by (simp only: nth_append) simp
qed

lemma nth_plainForm_final:
  "plainForm catalog ! (5 + 3 * length (object_keys catalog)) = finalItems ! 0"
proof -
  have l: "length (welcomeItems @ selectionItems @ concat (map sectionItems (object_entries catalog)))
           = 5 + 3 * length (object_keys catalog)"
    by (simp add: welcomeItems_def selectionItems_def length_sections length_object_entries)
  have "plainForm catalog
        = (welcomeItems @ selectionItems @ concat (map sectionItems (object_entries catalog))) @ finalItems"
    by (simp add: plainForm_def)
  then show ?thesis using l by (simp only: nth_append) simp
qed

lemma section_lookup:
  assumes "j < length (object_keys catalog)"
  shows "object_get (builtCloudSections (build f catalog)) (object_keys catalog ! j)
         = Some \<lparr> pageBreak = 5 + 3 * j, nextQuestion = 5 + 3 * j + 2 \<rparr>"
proof -
  let ?es = "object_entries catalog"
  let ?T = "sectionTable 5 ?es"
  have j: "j < length ?es" using assms by (simp add: length_object_entries)
  have d: "distinct (map fst ?T)"
    by (simp add: keys_sectionTable keys_object_entries distinct_object_keys)
  have k: "object_keys catalog ! j = fst (?es ! j)"
    using j by (simp add: keys_object_entries [symmetric])
  have "?T ! j \<in> set ?T" using j by (simp add: length_sectionTable)
  then have "(fst (?es ! j), \<lparr> pageBreak = 5 + 3 * j, nextQuestion = 5 + 3 * j + 2 \<rparr>) \<in> set ?T"
    using nth_sectionTable [OF j, of 5] by simp
  with d have "map_of ?T (fst (?es ! j)) = Some \<lparr> pageBreak = 5 + 3 * j, nextQuestion = 5 + 3 * j + 2 \<rparr>"
    by (rule map_of_is_SomeI)
  then show ?thesis by (simp add: build_eq object_get_def k)
qed

lemma distinct_nextQuestions:
  "distinct (map (\<lambda>e. nextQuestion (snd e)) (sectionTable h es))"
  by (auto simp: distinct_conv_nth length_sectionTable nth_sectionTable)

lemma built_nth_nextQuestion:
  assumes "i < length (object_keys catalog)"
  shows "builtForm (build f catalog) ! (5 + 3 * i + 2)
         = (sectionItems (object_entries catalog ! i) ! 2)
             \<lparr>choices := nextChoicesOf (sectionTable 5 (object_entries catalog))
                           (5 + 3 * length (object_keys catalog)) i\<rparr>"
proof -
  let ?es = "object_entries catalog"
  let ?T = "sectionTable 5 ?es"
  let ?fin = "5 + 3 * length (object_keys catalog)"
  let ?f = "setChoices 4 (startChoicesOf ?T ?fin) (plainForm catalog)"
  have i: "i < length ?es" using assms by (simp add: length_object_entries)
  have q: "nextQuestion (snd (?T ! i)) = 5 + 3 * i + 2"
    using nth_sectionTable [OF i, of 5] by simp
  have lt: "nextQuestion (snd (?T ! i)) < length ?f"
    using assms by (simp add: q length_setChoices length_plainForm)
  have "navigationLoop ?T ?fin 0 ?f ! nextQuestion (snd (?T ! i))
        = (?f ! nextQuestion (snd (?T ! i)))\<lparr>choices := nextChoicesOf ?T ?fin i\<rparr>"
    by (rule nth_navigationLoop_next [OF distinct_nextQuestions _ _ lt])
       (simp_all add: length_sectionTable i)
  moreover have "?f ! (5 + 3 * i + 2) = plainForm catalog ! (5 + 3 * i + 2)"
    by (simp add: nth_setChoices)
  ultimately show ?thesis
    using nth_plainForm_section [OF assms, of 2] by (simp add: build_eq q)
qed

lemma built_nth_other:
  assumes "\<And>i. i < length (object_keys catalog) \<Longrightarrow> k \<noteq> 5 + 3 * i + 2" and "k \<noteq> 4"
  shows "builtForm (build f catalog) ! k = plainForm catalog ! k"
proof -
  let ?es = "object_entries catalog"
  let ?T = "sectionTable 5 ?es"
  let ?fin = "5 + 3 * length (object_keys catalog)"
  let ?f = "setChoices 4 (startChoicesOf ?T ?fin) (plainForm catalog)"
  have "navigationLoop ?T ?fin 0 ?f ! k = ?f ! k"
  proof (rule nth_navigationLoop_other)
    fix i assume "0 \<le> i" "i < length ?T"
    then have i: "i < length ?es" by (simp add: length_sectionTable)
    then have "i < length (object_keys catalog)" by (simp add: length_object_entries)
    from assms(1) [OF this] nth_sectionTable [OF i, of 5]
    show "nextQuestion (snd (?T ! i)) \<noteq> k" by simp
  qed
  then show ?thesis using assms(2) by (simp add: build_eq nth_setChoices)
qed

lemma built_nth_cloudQuestion:
  "builtForm (build f catalog) ! 4
   = (selectionItems ! 1)
       \<lparr>choices := startChoicesOf (sectionTable 5 (object_entries catalog))
                     (5 + 3 * length (object_keys catalog))\<rparr>"
proof -
  let ?es = "object_entries catalog"
  let ?T = "sectionTable 5 ?es"
  let ?fin = "5 + 3 * length (object_keys catalog)"
  let ?f = "setChoices 4 (startChoicesOf ?T ?fin) (plainForm catalog)"
  have "navigationLoop ?T ?fin 0 ?f ! 4 = ?f ! 4"
  proof (rule nth_navigationLoop_other)
    fix i assume "0 \<le> i" "i < length ?T"
    then have i: "i < length ?es" by (simp add: length_sectionTable)
    from nth_sectionTable [OF i, of 5]
    show "nextQuestion (snd (?T ! i)) \<noteq> 4" by simp
  qed
  moreover have "plainForm catalog ! 4 = selectionItems ! 1"
    using nth_plainForm_head [of 4 catalog] by (simp add: welcomeItems_def nth_append)
  ultimately show ?thesis
    by (simp add: build_eq nth_setChoices length_plainForm)
qed

lemma pageBreaksFrom_append:
  "pageBreaksFrom h (xs @ ys) = pageBreaksFrom h xs @ pageBreaksFrom (h + length xs) ys"
  by (induction xs arbitrary: h) auto

lemma pageBreaksFrom_cong:
  "map itemType f = map itemType g \<Longrightarrow> pageBreaksFrom h f = pageBreaksFrom h g"
proof (induction f arbitrary: g h)
  case Nil
  then show ?case by simp
next
  case (Cons a f)
  then obtain b g' where g: "g = b # g'" by (cases g) auto
  with Cons.prems have "itemType a = itemType b" "map itemType f = map itemType g'" by simp_all
  with Cons.IH [of g' "Suc h"] show ?case by (simp add: g)
qed

lemma pageBreaksFrom_sections:
  "pageBreaksFrom h (concat (map sectionItems es)) = map (\<lambda>e. pageBreak (snd e)) (sectionTable h es)"
proof (induction es arbitrary: h)
  case Nil
  then show ?case by simp
next
  case (Cons e es)
  have "pageBreaksFrom h (sectionItems e) = [h]" by (simp add: sectionItems_def)
  moreover have "length (sectionItems e) = 3" by (simp add: sectionItems_def)
  ultimately show ?case by (simp add: pageBreaksFrom_append Cons.IH)
qed

lemma itemTypes_setChoices: "map itemType (setChoices h cs f) = map itemType f"
  by (rule nth_equalityI) (simp_all add: length_setChoices nth_setChoices)

lemma itemTypes_navigationLoop: "map itemType (navigationLoop entries fin idx f) = map itemType f"
proof (induction "length entries - idx" arbitrary: idx f)
  case 0
  then show ?case by (simp add: navigationLoop_done)
next
  case (Suc n)
  then have lt: "idx < length entries" and n: "n = length entries - Suc idx" by simp_all
  show ?case
    unfolding navigationLoop_step [OF lt] Suc.hyps(1) [OF n] by (rule itemTypes_setChoices)
qed

lemma pageBreakItems_plainForm:
  "pageBreakItems (plainForm catalog)
   = 3 # map (\<lambda>e. pageBreak (snd e)) (sectionTable 5 (object_entries catalog))
     @ [5 + 3 * length (object_keys catalog)]"
proof -
  have a: "pageBreaksFrom 0 welcomeItems = []" by (simp add: welcomeItems_def)
  have b: "pageBreaksFrom 3 selectionItems = [3]" by (simp add: selectionItems_def)
  have c: "pageBreaksFrom n finalItems = [n]" for n by (simp add: finalItems_def)
  have l: "length welcomeItems = 3" "length selectionItems = 2"
    by (simp_all add: welcomeItems_def selectionItems_def)
  show ?thesis
    by (simp add: pageBreakItems_def plainForm_def pageBreaksFrom_append a b c l
        pageBreaksFrom_sections length_sections length_object_entries)
qed

lemma pageBreakItems_built:
  "pageBreakItems (builtForm (build f catalog))
   = 3 # map (\<lambda>e. pageBreak (snd e)) (sectionTable 5 (object_entries catalog))
     @ [5 + 3 * length (object_keys catalog)]"
proof -
  have "map itemType (builtForm (build f catalog)) = map itemType (plainForm catalog)"
    by (simp add: build_eq itemTypes_navigationLoop itemTypes_setChoices)
  then have "pageBreakItems (builtForm (build f catalog)) = pageBreakItems (plainForm catalog)"
    unfolding pageBreakItems_def by (rule pageBreaksFrom_cong)
  then show ?thesis by (simp add: pageBreakItems_plainForm)
qed

lemma providerPage_entry:
  assumes "e \<in> set (sectionTable 5 (object_entries catalog))"
  shows "providerPage (build f catalog) (fst e) = Some (pageBreak (snd e))"
proof -
  have "distinct (map fst (sectionTable 5 (object_entries catalog)))"
    by (simp add: keys_sectionTable keys_object_entries distinct_object_keys)
  moreover from assms have "(fst e, snd e) \<in> set (sectionTable 5 (object_entries catalog))" by simp
  ultimately have "map_of (sectionTable 5 (object_entries catalog)) (fst e) = Some (snd e)"
    by (rule map_of_is_SomeI)
  then show ?thesis by (simp add: providerPage_def build_eq object_get_def)
qed

lemma providerPage_key:
  "j < length (object_keys catalog) \<Longrightarrow>
   providerPage (build f catalog) (object_keys catalog ! j) = Some (5 + 3 * j)"
  by (simp add: providerPage_def section_lookup)

lemma provider_pages:
  "map (\<lambda>p. (p, providerPage (build f catalog) p)) (map fst es)
   = map (\<lambda>e. (fst e, Some (pageBreak (snd e)))) es"
  if "set es \<subseteq> set (sectionTable 5 (object_entries catalog))"
  using that by (induction es) (auto simp: providerPage_entry)

lemma keys_table: "map fst (sectionTable 5 (object_entries catalog)) = object_keys catalog"
  by (simp add: keys_sectionTable keys_object_entries)

lemma choices_as_pages:
  "map (\<lambda>(label, target). (label, Some target)) (startChoicesOf (sectionTable 5 (object_entries catalog)) fin)
   = map (\<lambda>p. (p, providerPage (build f catalog) p)) (object_keys catalog)
     @ [(''Go to Submit'', Some fin)]"
  using provider_pages [of "sectionTable 5 (object_entries catalog)" catalog f]
  by (simp add: startChoicesOf_def keys_table comp_def)

lemma next_choices_as_pages:
  "map (\<lambda>(label, target). (label, Some target)) (nextChoicesOf (sectionTable 5 (object_entries catalog)) fin i)
   = map (\<lambda>p. (p, providerPage (build f catalog) p)) (drop (Suc i) (object_keys catalog))
     @ [(''Go to Submit'', Some fin)]"
proof -
  have "set (drop (Suc i) (sectionTable 5 (object_entries catalog)))
        \<subseteq> set (sectionTable 5 (object_entries catalog))"
    by (rule set_drop_subset)
  from provider_pages [OF this, of f]
  show ?thesis
    by (simp add: nextChoicesOf_def keys_table [symmetric] drop_map comp_def)
qed

lemma next_choice_target:
  assumes "(label, target) \<in> set (nextChoicesOf (sectionTable 5 (object_entries catalog)) fin i)"
  shows "target = fin \<or> (\<exists>j. i < j \<and> j < length (object_keys catalog) \<and> target = 5 + 3 * j)"
proof -
  let ?T = "sectionTable 5 (object_entries catalog)"
  from assms have "(label, target) = (''Go to Submit'', fin)
      \<or> (\<exists>e \<in> set (drop (Suc i) ?T). (label, target) = (fst e, pageBreak (snd e)))"
    by (auto simp: nextChoicesOf_def)
  then show ?thesis
  proof
    assume "(label, target) = (''Go to Submit'', fin)"
    then show ?thesis by simp
  next
    assume "\<exists>e \<in> set (drop (Suc i) ?T). (label, target) = (fst e, pageBreak (snd e))"
    then obtain e where e: "e \<in> set (drop (Suc i) ?T)" and t: "target = pageBreak (snd e)" by auto
    from e obtain k where k: "k < length (drop (Suc i) ?T)" "e = drop (Suc i) ?T ! k"
      by (auto simp: in_set_conv_nth)
    define j where "j = Suc i + k"
    from k have j: "Suc i \<le> j" "j < length ?T" "e = ?T ! j"
      by (auto simp: j_def)
    from j(2) have j': "j < length (object_entries catalog)" by (simp add: length_sectionTable)
    with j(3) t have "target = 5 + 3 * j" by (simp add: nth_sectionTable)
    with j(1) j' show ?thesis by (auto simp: length_object_entries)
  qed
qed

subsection \<open>Forward-only navigation\<close>

text \<open>
  Claim C1. For every catalog and every provider at index \<open>i\<close> of its key list, the
  \<^verbatim>\<open>Next step\<close> question on that provider's page offers, in order, the providers after
  index \<open>i\<close>, each targeting its own page, and then \<^verbatim>\<open>Go to Submit\<close> targeting the final
  page. Every target is the final page or the page of a provider at an index greater
  than \<open>i\<close>; no target is the page of a provider at an index up to \<open>i\<close>, and the final
  page is no provider's page.
\<close>
theorem forward_only_navigation:
  assumes "i < length (object_keys catalog)"
  shows "\<exists>page q.
      providerPage (build f catalog) (object_keys catalog ! i) = Some page
    \<and> nextStepQuestion (build f catalog) (object_keys catalog ! i) = Some q
    \<and> itemType (builtForm (build f catalog) ! page) = PAGE_BREAK
    \<and> itemType (builtForm (build f catalog) ! Suc page) = CHECKBOX
    \<and> q = Suc (Suc page)
    \<and> itemType (builtForm (build f catalog) ! q) = MULTIPLE_CHOICE
    \<and> title (builtForm (build f catalog) ! q) = ''Next step''
    \<and> map (\<lambda>(label, target). (label, Some target)) (choices (builtForm (build f catalog) ! q))
      = map (\<lambda>p. (p, providerPage (build f catalog) p)) (drop (Suc i) (object_keys catalog))
        @ [(''Go to Submit'', Some (builtFinalPage (build f catalog)))]
    \<and> (\<forall>(label, target) \<in> set (choices (builtForm (build f catalog) ! q)).
          target = builtFinalPage (build f catalog)
          \<or> (\<exists>j. i < j \<and> j < length (object_keys catalog)
                 \<and> providerPage (build f catalog) (object_keys catalog ! j) = Some target))
    \<and> (\<forall>(label, target) \<in> set (choices (builtForm (build f catalog) ! q)).
          \<forall>j \<le> i. providerPage (build f catalog) (object_keys catalog ! j) \<noteq> Some target)
    \<and> (\<forall>j < length (object_keys catalog).
          providerPage (build f catalog) (object_keys catalog ! j)
          \<noteq> Some (builtFinalPage (build f catalog)))"
proof -
  let ?B = "build f catalog"
  let ?F = "builtForm ?B"
  let ?keys = "object_keys catalog"
  let ?T = "sectionTable 5 (object_entries catalog)"
  let ?fin = "5 + 3 * length ?keys"
  let ?page = "5 + 3 * i"
  let ?q = "Suc (Suc ?page)"
  have fin: "builtFinalPage ?B = ?fin" by (simp add: build_eq)
  have p: "providerPage ?B (?keys ! i) = Some ?page"
    using assms by (rule providerPage_key)
  have q: "nextStepQuestion ?B (?keys ! i) = Some ?q"
    using assms by (simp add: nextStepQuestion_def section_lookup)
  have "?F ! (5 + 3 * i) = plainForm catalog ! (5 + 3 * i)"
  proof (rule built_nth_other)
    show "5 + 3 * i \<noteq> 5 + 3 * k + 2" for k by presburger
    show "5 + 3 * i \<noteq> 4" by simp
  qed
  then have "?F ! ?page = plainForm catalog ! (5 + 3 * i + 0)" by simp
  then have t0: "itemType (?F ! ?page) = PAGE_BREAK"
    using nth_plainForm_section [OF assms, of 0] by (simp add: sectionItems_def)
  have "?F ! (5 + 3 * i + 1) = plainForm catalog ! (5 + 3 * i + 1)"
  proof (rule built_nth_other)
    show "5 + 3 * i + 1 \<noteq> 5 + 3 * k + 2" for k by presburger
    show "5 + 3 * i + 1 \<noteq> 4" by simp
  qed
  then have "?F ! Suc ?page = plainForm catalog ! (5 + 3 * i + 1)" by simp
  then have t1: "itemType (?F ! Suc ?page) = CHECKBOX"
    using nth_plainForm_section [OF assms, of 1] by (simp add: sectionItems_def)
  have nq: "?F ! ?q = (sectionItems (object_entries catalog ! i) ! 2)\<lparr>choices := nextChoicesOf ?T ?fin i\<rparr>"
    using built_nth_nextQuestion [OF assms, of f] by simp
  then have t2: "itemType (?F ! ?q) = MULTIPLE_CHOICE" "title (?F ! ?q) = ''Next step''"
    and ch: "choices (?F ! ?q) = nextChoicesOf ?T ?fin i"
    by (simp_all add: sectionItems_def)
  have m: "map (\<lambda>(label, target). (label, Some target)) (choices (?F ! ?q))
      = map (\<lambda>p. (p, providerPage ?B p)) (drop (Suc i) ?keys) @ [(''Go to Submit'', Some (builtFinalPage ?B))]"
    unfolding ch fin by (rule next_choices_as_pages)
  have fwd: "\<forall>(label, target) \<in> set (choices (?F ! ?q)).
          target = builtFinalPage ?B
          \<or> (\<exists>j. i < j \<and> j < length ?keys \<and> providerPage ?B (?keys ! j) = Some target)"
  proof (clarify)
    fix label target
    assume c: "(label, target) \<in> set (choices (?F ! ?q))"
      and n: "\<not> (\<exists>j. i < j \<and> j < length ?keys \<and> providerPage ?B (?keys ! j) = Some target)"
    from c have "target = ?fin \<or> (\<exists>k. i < k \<and> k < length ?keys \<and> target = 5 + 3 * k)"
      unfolding ch by (rule next_choice_target)
    moreover have "\<not> (\<exists>k. i < k \<and> k < length ?keys \<and> target = 5 + 3 * k)"
      using n by (auto simp: providerPage_key)
    ultimately show "target = builtFinalPage ?B" unfolding fin by blast
  qed
  have bwd: "\<forall>(label, target) \<in> set (choices (?F ! ?q)).
          \<forall>j \<le> i. providerPage ?B (?keys ! j) \<noteq> Some target"
  proof (clarify)
    fix label target j
    assume c: "(label, target) \<in> set (choices (?F ! ?q))" and j: "j \<le> i"
      and e: "providerPage ?B (?keys ! j) = Some target"
    from j assms have "j < length ?keys" by simp
    with e have t: "target = 5 + 3 * j" by (simp add: providerPage_key)
    from c have "target = ?fin \<or> (\<exists>k. i < k \<and> k < length ?keys \<and> target = 5 + 3 * k)"
      unfolding ch by (rule next_choice_target)
    with t j assms show False by auto
  qed
  have final: "\<forall>j < length ?keys. providerPage ?B (?keys ! j) \<noteq> Some (builtFinalPage ?B)"
    by (simp add: providerPage_key fin)
  from p q t0 t1 t2 m fwd bwd final show ?thesis by blast
qed

theorem forward_only_navigation_witness:
  "0 < length (object_keys [(''AWS'', [''EC2'', ''S3'']), (''Azure'', [''VM'']), (''GCP'', [''GKE''])])
   \<and> (\<exists>q. nextStepQuestion
              (build [] [(''AWS'', [''EC2'', ''S3'']), (''Azure'', [''VM'']), (''GCP'', [''GKE''])])
              ''AWS'' = Some q
          \<and> map (\<lambda>(label, target). (label, Some target))
               (choices (builtForm
                  (build [] [(''AWS'', [''EC2'', ''S3'']), (''Azure'', [''VM'']), (''GCP'', [''GKE''])]) ! q))
             = [(''Azure'', Some 8), (''GCP'', Some 11), (''Go to Submit'', Some 14)])"
proof -
  let ?cat = "[(''AWS'', [''EC2'', ''S3'']), (''Azure'', [''VM'']), (''GCP'', [''GKE''])]"
  have k: "object_keys ?cat = [''AWS'', ''Azure'', ''GCP'']" by code_simp
  have h: "0 < length (object_keys ?cat)" by (simp add: k)
  have p1: "providerPage (build [] ?cat) ''Azure'' = Some 8"
    using providerPage_key [of 1 ?cat "[]"] by (simp add: k)
  have p2: "providerPage (build [] ?cat) ''GCP'' = Some 11"
    using providerPage_key [of 2 ?cat "[]"] by (simp add: k)
  have fin: "builtFinalPage (build [] ?cat) = 14" by (simp add: build_eq k)
  from forward_only_navigation [OF h, of "[]"] h show ?thesis
    unfolding k by (auto simp: p1 p2 fin)
qed

subsection \<open>Pages and provider choices\<close>

lemma distinct_provider_pages:
  "distinct (map (providerPage (build f catalog)) (object_keys catalog))"
  by (auto simp: distinct_conv_nth providerPage_key)

lemma provider_pages_map:
  "map (providerPage (build f catalog)) (object_keys catalog)
   = map (\<lambda>e. Some (pageBreak (snd e))) (sectionTable 5 (object_entries catalog))"
  by (rule nth_equalityI)
     (simp_all add: length_sectionTable length_object_entries providerPage_key nth_sectionTable)

text \<open>
  Claim C3, as amended. For a non-empty catalog the built form has, after the intake
  items of the first page, the page \<^verbatim>\<open>Cloud Provider Selection\<close>, one page per provider
  (all different) and the final page: three pages more than providers. The
  provider-select question has one choice per provider, targeting that provider's page,
  and one more, \<^verbatim>\<open>Go to Submit\<close>, targeting the final page.
\<close>
theorem build_pages_and_choices:
  assumes "object_keys catalog \<noteq> []"
  shows "map Some (pageBreakItems (builtForm (build f catalog)))
         = Some 3 # map (providerPage (build f catalog)) (object_keys catalog)
           @ [Some (builtFinalPage (build f catalog))]
    \<and> distinct (map (providerPage (build f catalog)) (object_keys catalog))
    \<and> pageCount (builtForm (build f catalog)) = length (object_keys catalog) + 3
    \<and> title (builtForm (build f catalog) ! 1) = ''Full Name of a Padawan''
    \<and> title (builtForm (build f catalog) ! 2) = ''Project Name''
    \<and> title (builtForm (build f catalog) ! 3) = ''Cloud Provider Selection''
    \<and> (\<forall>j < length (object_keys catalog). \<exists>page.
          providerPage (build f catalog) (object_keys catalog ! j) = Some page
          \<and> title (builtForm (build f catalog) ! page) = object_keys catalog ! j @ '' Technologies'')
    \<and> title (builtForm (build f catalog) ! builtFinalPage (build f catalog)) = ''Feedback Complete''
    \<and> itemType (builtForm (build f catalog) ! builtCloudQuestion (build f catalog)) = MULTIPLE_CHOICE
    \<and> title (builtForm (build f catalog) ! builtCloudQuestion (build f catalog))
      = ''Choose Your Cloud Provider''
    \<and> length (choices (builtForm (build f catalog) ! builtCloudQuestion (build f catalog)))
      = length (object_keys catalog) + 1
    \<and> map (\<lambda>(label, target). (label, Some target))
        (choices (builtForm (build f catalog) ! builtCloudQuestion (build f catalog)))
      = map (\<lambda>p. (p, providerPage (build f catalog) p)) (object_keys catalog)
        @ [(''Go to Submit'', Some (builtFinalPage (build f catalog)))]"
proof -
  let ?B = "build f catalog"
  let ?F = "builtForm ?B"
  let ?keys = "object_keys catalog"
  let ?T = "sectionTable 5 (object_entries catalog)"
  let ?fin = "5 + 3 * length ?keys"
  have fin: "builtFinalPage ?B = ?fin" and cq: "builtCloudQuestion ?B = 4"
    by (simp_all add: build_eq)
  have pb: "map Some (pageBreakItems ?F)
            = Some 3 # map (providerPage ?B) ?keys @ [Some (builtFinalPage ?B)]"
    by (simp add: pageBreakItems_built provider_pages_map fin comp_def)
  have pc: "pageCount ?F = length ?keys + 3"
    by (simp add: pageCount_def pageBreakItems_built length_sectionTable length_object_entries)
  have head: "?F ! k = (welcomeItems @ selectionItems) ! k" if "k < 4" for k
  proof -
    have "?F ! k = plainForm catalog ! k"
      using that by (intro built_nth_other) auto
    with that show ?thesis by (simp add: nth_plainForm_head)
  qed
  have t1: "title (?F ! 1) = ''Full Name of a Padawan''"
    and t2: "title (?F ! 2) = ''Project Name''"
    and t3: "title (?F ! 3) = ''Cloud Provider Selection''"
    using head [of 1] head [of 2] head [of 3]
    by (simp_all add: welcomeItems_def selectionItems_def)
  have tp: "\<forall>j < length ?keys. \<exists>page. providerPage ?B (?keys ! j) = Some page
              \<and> title (?F ! page) = ?keys ! j @ '' Technologies''"
  proof (intro allI impI)
    fix j assume j: "j < length ?keys"
    have "?F ! (5 + 3 * j) = plainForm catalog ! (5 + 3 * j)"
    proof (rule built_nth_other)
      show "5 + 3 * j \<noteq> 5 + 3 * k + 2" for k by presburger
      show "5 + 3 * j \<noteq> 4" by simp
    qed
    also have "\<dots> = sectionItems (object_entries catalog ! j) ! 0"
      using nth_plainForm_section [OF j, of 0] by simp
    finally have "title (?F ! (5 + 3 * j)) = fst (object_entries catalog ! j) @ '' Technologies''"
      by (simp add: sectionItems_def)
    moreover have "fst (object_entries catalog ! j) = ?keys ! j"
    proof -
      have "j < length (object_entries catalog)" using j by (simp add: length_object_entries)
      then have "map fst (object_entries catalog) ! j = fst (object_entries catalog ! j)"
        by (rule nth_map)
      then show ?thesis by (simp only: keys_object_entries)
    qed
    ultimately show "\<exists>page. providerPage ?B (?keys ! j) = Some page
              \<and> title (?F ! page) = ?keys ! j @ '' Technologies''"
      using providerPage_key [OF j, of f] by simp
  qed
  have "?F ! ?fin = plainForm catalog ! ?fin"
  proof (rule built_nth_other)
    show "?fin \<noteq> 5 + 3 * k + 2" for k by presburger
    show "?fin \<noteq> 4" by simp
  qed
  then have tf: "title (?F ! builtFinalPage ?B) = ''Feedback Complete''"
    by (simp add: fin nth_plainForm_final finalItems_def)
  have q: "?F ! builtCloudQuestion ?B = (selectionItems ! 1)\<lparr>choices := startChoicesOf ?T ?fin\<rparr>"
    by (simp add: cq built_nth_cloudQuestion)
  then have tq: "itemType (?F ! builtCloudQuestion ?B) = MULTIPLE_CHOICE"
      "title (?F ! builtCloudQuestion ?B) = ''Choose Your Cloud Provider''"
    and ch: "choices (?F ! builtCloudQuestion ?B) = startChoicesOf ?T ?fin"
    by (simp_all add: selectionItems_def)
  have lc: "length (choices (?F ! builtCloudQuestion ?B)) = length ?keys + 1"
    by (simp add: ch startChoicesOf_def length_sectionTable length_object_entries)
  have mc: "map (\<lambda>(label, target). (label, Some target)) (choices (?F ! builtCloudQuestion ?B))
      = map (\<lambda>p. (p, providerPage ?B p)) ?keys @ [(''Go to Submit'', Some (builtFinalPage ?B))]"
    unfolding ch fin by (rule choices_as_pages)
  note dp = distinct_provider_pages [of f catalog]
  from pb dp pc t1 t2 t3 tp tf tq lc mc
  show ?thesis by (intro conjI) assumption+
qed

theorem build_pages_and_choices_witness:
  "object_keys [(''AWS'', [''EC2'', ''S3'']), (''Azure'', [''VM''])] \<noteq> []
   \<and> pageBreakItems (builtForm (build [] [(''AWS'', [''EC2'', ''S3'']), (''Azure'', [''VM''])]))
     = [3, 5, 8, 11]
   \<and> pageCount (builtForm (build [] [(''AWS'', [''EC2'', ''S3'']), (''Azure'', [''VM''])])) = 5
   \<and> map (\<lambda>(label, target). (label, Some target))
        (choices (builtForm (build [] [(''AWS'', [''EC2'', ''S3'']), (''Azure'', [''VM''])])
           ! builtCloudQuestion (build [] [(''AWS'', [''EC2'', ''S3'']), (''Azure'', [''VM''])])))
     = [(''AWS'', Some 5), (''Azure'', Some 8), (''Go to Submit'', Some 11)]"
proof -
  let ?cat = "[(''AWS'', [''EC2'', ''S3'']), (''Azure'', [''VM''])]"
  have k: "object_keys ?cat = [''AWS'', ''Azure'']" by code_simp
  have h: "object_keys ?cat \<noteq> []" by (simp add: k)
  have p0: "providerPage (build [] ?cat) ''AWS'' = Some 5"
    using providerPage_key [of 0 ?cat "[]"] by (simp add: k)
  have p1: "providerPage (build [] ?cat) ''Azure'' = Some 8"
    using providerPage_key [of 1 ?cat "[]"] by (simp add: k)
  have fin: "builtFinalPage (build [] ?cat) = 11" by (simp add: build_eq k)
  from build_pages_and_choices [OF h, of "[]"]
  have a: "map Some (pageBreakItems (builtForm (build [] ?cat))) = map Some [3, 5, 8, 11]"
    and b: "pageCount (builtForm (build [] ?cat)) = 5"
    and c: "map (\<lambda>(label, target). (label, Some target))
        (choices (builtForm (build [] ?cat) ! builtCloudQuestion (build [] ?cat)))
     = [(''AWS'', Some 5), (''Azure'', Some 8), (''Go to Submit'', Some 11)]"
    unfolding k by (simp_all add: p0 p1 fin)
  from a have "pageBreakItems (builtForm (build [] ?cat)) = [3, 5, 8, 11]"
    by (simp only: inj_map_eq_map [OF inj_Some])
  with h b c show ?thesis by blast
qed

text \<open>
  Claim C3 as stated fails: for one provider the form has four pages, not three; the
  provider-select question is on a page of its own.
\<close>

theorem build_pages_counterexample:
  "object_keys [(''AWS'', [''EC2''])] \<noteq> []
   \<and> map (\<lambda>h. title (builtForm (build [] [(''AWS'', [''EC2''])]) ! h))
        (pageBreakItems (builtForm (build [] [(''AWS'', [''EC2''])])))
     = [''Cloud Provider Selection'', ''AWS Technologies'', ''Feedback Complete'']
   \<and> pageCount (builtForm (build [] [(''AWS'', [''EC2''])])) = 4
   \<and> pageCount (builtForm (build [] [(''AWS'', [''EC2''])]))
     \<noteq> length (object_keys [(''AWS'', [''EC2''])]) + 2"
proof -
  let ?cat = "[(''AWS'', [''EC2''])]"
  have k: "object_keys ?cat = [''AWS'']" by code_simp
  have e: "object_entries ?cat = ?cat" by code_simp
  have pb: "pageBreakItems (builtForm (build [] ?cat)) = [3, 5, 8]"
    by (simp add: pageBreakItems_built k e)
  have n: "builtForm (build [] ?cat) ! h = plainForm ?cat ! h" if "h = 3 \<or> h = 5 \<or> h = 8" for h
    using that by (intro built_nth_other) (auto simp: k)
  have "map (\<lambda>h. title (builtForm (build [] ?cat) ! h)) [3, 5, 8]
        = [''Cloud Provider Selection'', ''AWS Technologies'', ''Feedback Complete'']"
    by (simp add: n plainForm_def e welcomeItems_def selectionItems_def sectionItems_def finalItems_def)
  then show ?thesis
    by (simp add: pb pageCount_def k)
qed

section \<open>Skipping on the first question\<close>

text \<open>
  Claim C2. The form built for the one-provider catalog offers \<^verbatim>\<open>Go to Submit\<close> on the
  provider-select question, and the respondent answers with it and with nothing
  provider-specific. The handler pushes that answer like any provider (only the
  next-step branch filters it), so the one record it emits carries \<^verbatim>\<open>Go to Submit\<close> in
  the provider column, not the empty string.
\<close>

theorem skip_on_first_question_records_submit:
  "choices (builtForm (build [] [(''AWS'', [''EC2''])])
            ! builtCloudQuestion (build [] [(''AWS'', [''EC2''])]))
   = [(''AWS'', 5), (''Go to Submit'', 8)]
   \<and> process 7 \<lparr>respondentEmail = None,
       itemResponses = [(''Full Name of a Padawan'', AStr ''Ann''),
                        (''Project Name'', AStr ''Apollo''),
                        (''Choose Your Cloud Provider'', AStr ''Go to Submit'')]\<rparr>
   = [\<lparr>colTimestamp = 7, colName = AStr ''Ann'', colProjectName = AStr ''Apollo'',
       colClouds = ''Go to Submit'', colTechnologiesCount = 0, colTechnologies = [],
       colComments = AStr [], colTechLeadEmail = []\<rparr>]"
proof -
  let ?cat = "[(''AWS'', [''EC2''])]"
  have k: "object_keys ?cat = [''AWS'']" by code_simp
  have e: "object_entries ?cat = ?cat" by code_simp
  have cq: "builtCloudQuestion (build [] ?cat) = 4" by (simp add: build_eq)
  have c: "choices (builtForm (build [] ?cat) ! builtCloudQuestion (build [] ?cat))
           = [(''AWS'', 5), (''Go to Submit'', 8)]"
    unfolding cq built_nth_cloudQuestion by (simp add: startChoicesOf_def k e)
  have p: "process 7 \<lparr>respondentEmail = None,
       itemResponses = [(''Full Name of a Padawan'', AStr ''Ann''),
                        (''Project Name'', AStr ''Apollo''),
                        (''Choose Your Cloud Provider'', AStr ''Go to Submit'')]\<rparr>
   = [\<lparr>colTimestamp = 7, colName = AStr ''Ann'', colProjectName = AStr ''Apollo'',
       colClouds = ''Go to Submit'', colTechnologiesCount = 0, colTechnologies = [],
       colComments = AStr [], colTechLeadEmail = []\<rparr>]"
    by code_simp
  from c p show ?thesis by (rule conjI)
qed

end
